theory Spec2Isabelle
  imports Main "HOL-Library.Word"
begin

unbundle bit_operations_syntax

text \<open>
  A model of \<open>mud.c\<close>, the engine of a multipath authenticated UDP tunnel, and the
  proofs of what its specification claims about it. Every function of the engine is a
  function here, with the source's name and case order. The state of the engine is a
  record that the functions take and return; the socket, the clock, the random generator
  and \<open>calloc\<close> are the \<open>world\<close>, passed along in the same way; the primitives of
  libsodium are parameters. Unsigned 64-bit values are words, so that subtraction and the
  cast from \<open>int\<close> wrap as they do in C.
\<close>

section \<open>Machine types and constants of mud.c\<close>

type_synonym byte = "8 word"
type_synonym bytes = "byte list"
type_synonym u64 = "64 word"

text \<open>A C \<open>int\<close>: 32 bits, read as two's complement with \<open>sint\<close>.\<close>
type_synonym cint = "32 word"

definition MUD_ONE_MSEC :: u64 where "MUD_ONE_MSEC = 1000"
definition MUD_ONE_SEC :: u64 where "MUD_ONE_SEC = 1000 * MUD_ONE_MSEC"
definition MUD_ONE_MIN :: u64 where "MUD_ONE_MIN = 60 * MUD_ONE_SEC"

definition MUD_U48_SIZE :: nat where "MUD_U48_SIZE = 6"
definition MUD_KEY_SIZE :: nat where "MUD_KEY_SIZE = 32"
definition MUD_MAC_SIZE :: nat where "MUD_MAC_SIZE = 16"

definition MUD_PACKET_MIN_SIZE :: nat where
  "MUD_PACKET_MIN_SIZE = MUD_U48_SIZE + MUD_MAC_SIZE"
definition MUD_PACKET_MAX_SIZE :: nat where "MUD_PACKET_MAX_SIZE = 1500"
definition MUD_PACKET_SIZEOF :: "nat \<Rightarrow> nat" where
  "MUD_PACKET_SIZEOF x = x + MUD_PACKET_MIN_SIZE"

definition MUD_PONG_SIZE :: nat where "MUD_PONG_SIZE = MUD_PACKET_SIZEOF (MUD_U48_SIZE * 4)"
definition MUD_PKEY_SIZE :: nat where "MUD_PKEY_SIZE = 32 + 1"
definition MUD_KEYX_SIZE :: nat where
  "MUD_KEYX_SIZE = MUD_PACKET_SIZEOF (MUD_U48_SIZE + 2 * MUD_PKEY_SIZE)"
definition MUD_MTUX_SIZE :: nat where "MUD_MTUX_SIZE = MUD_PACKET_SIZEOF (MUD_U48_SIZE * 2)"
definition MUD_BAKX_SIZE :: nat where "MUD_BAKX_SIZE = MUD_PACKET_SIZEOF (MUD_U48_SIZE + 1)"

definition MUD_PONG_TIMEOUT :: u64 where "MUD_PONG_TIMEOUT = 100 * MUD_ONE_MSEC"
definition MUD_KEYX_TIMEOUT :: u64 where "MUD_KEYX_TIMEOUT = 60 * MUD_ONE_MIN"
definition MUD_SEND_TIMEOUT :: u64 where "MUD_SEND_TIMEOUT = MUD_ONE_SEC"
definition MUD_TIME_TOLERANCE :: u64 where "MUD_TIME_TOLERANCE = 10 * MUD_ONE_MIN"

datatype mud_msg = mud_ping | mud_pong | mud_keyx | mud_mtux | mud_bakx

section \<open>Addresses\<close>

text \<open>
  \<open>struct ipaddr\<close> is a family tag with a union of \<open>in_addr\<close> and \<open>in6_addr\<close>;
  a socket address of the UDP socket is a \<open>sockaddr_in\<close> or a \<open>sockaddr_in6\<close>, of
  which the code reads the family, the port and the address. Addresses are kept as
  numbers in network byte order (first byte most significant).
\<close>

datatype ipaddr = IPv4 "32 word" | IPv6 "128 word"

datatype sockaddr = Sin "16 word" "32 word" | Sin6 "16 word" "128 word"

datatype family = AF_INET | AF_INET6

fun ip_family :: "ipaddr \<Rightarrow> family" where
  "ip_family (IPv4 _) = AF_INET"
| "ip_family (IPv6 _) = AF_INET6"

fun sa_family :: "sockaddr \<Rightarrow> family" where
  "sa_family (Sin _ _) = AF_INET"
| "sa_family (Sin6 _ _) = AF_INET6"

text \<open>\<open>IN6_IS_ADDR_V4MAPPED\<close>: ten zero bytes, two bytes \<open>0xff\<close>, then the IPv4 address.\<close>

definition IN6_IS_ADDR_V4MAPPED :: "128 word \<Rightarrow> bool" where
  "IN6_IS_ADDR_V4MAPPED a \<longleftrightarrow> drop_bit 32 a = 0xFFFF"

fun mud_unmapv4 :: "sockaddr \<Rightarrow> sockaddr" where
  "mud_unmapv4 (Sin port a) = Sin port a"
| "mud_unmapv4 (Sin6 port a) =
     (if \<not> IN6_IS_ADDR_V4MAPPED a then Sin6 port a else Sin port (ucast a))"

text \<open>The two comparisons return nonzero (here \<open>True\<close>) when the addresses differ.\<close>

fun mud_cmp_ipaddr :: "ipaddr \<Rightarrow> ipaddr \<Rightarrow> bool" where
  "mud_cmp_ipaddr (IPv4 a) (IPv4 b) = (a \<noteq> b)"
| "mud_cmp_ipaddr (IPv6 a) (IPv6 b) = (a \<noteq> b)"
| "mud_cmp_ipaddr _ _ = True"

fun mud_cmp_addr :: "sockaddr \<Rightarrow> sockaddr \<Rightarrow> bool" where
  "mud_cmp_addr (Sin pa a) (Sin pb b) = (pa \<noteq> pb \<or> a \<noteq> b)"
| "mud_cmp_addr (Sin6 pa a) (Sin6 pb b) = (pa \<noteq> pb \<or> a \<noteq> b)"
| "mud_cmp_addr _ _ = True"

section \<open>Wire codec and clock arithmetic\<close>

definition mud_write48 :: "u64 \<Rightarrow> bytes" where
  "mud_write48 src =
     [ucast (255 AND src),
      ucast (255 AND drop_bit 8 src),
      ucast (255 AND drop_bit 16 src),
      ucast (255 AND drop_bit 24 src),
      ucast (255 AND drop_bit 32 src),
      ucast (255 AND drop_bit 40 src)]"

definition mud_read48 :: "bytes \<Rightarrow> u64" where
  "mud_read48 src =
     ucast (src ! 0)
     OR push_bit 8 (ucast (src ! 1))
     OR push_bit 16 (ucast (src ! 2))
     OR push_bit 24 (ucast (src ! 3))
     OR push_bit 32 (ucast (src ! 4))
     OR push_bit 40 (ucast (src ! 5))"

definition mud_abs_diff :: "u64 \<Rightarrow> u64 \<Rightarrow> u64" where
  "mud_abs_diff a b = (if a \<ge> b then a - b else b - a)"

definition mud_timeout :: "u64 \<Rightarrow> u64 \<Rightarrow> u64 \<Rightarrow> bool" where
  "mud_timeout now lst timeout \<longleftrightarrow> lst = 0 \<or> (now > lst \<and> now - lst \<ge> timeout)"

section \<open>The library and the environment\<close>

text \<open>
  The AEAD ciphers, X25519 and the keyed hash come from libsodium, which is not part of
  the repository: they are parameters of the model. An encryption returns the bytes it
  writes at the destination (ciphertext followed by the tag). A decryption either opens
  the box, or rejects it and leaves some bytes of its own at the destination.
\<close>

datatype opened = Opened bytes | Rejected bytes

record sodium =
  aes256gcm_encrypt_afternm :: "bytes \<Rightarrow> bytes \<Rightarrow> bytes \<Rightarrow> bytes \<Rightarrow> bytes"
  aes256gcm_decrypt_afternm :: "bytes \<Rightarrow> bytes \<Rightarrow> bytes \<Rightarrow> bytes \<Rightarrow> opened"
  aes256gcm_beforenm :: "bytes \<Rightarrow> bytes"
  chacha20poly1305_encrypt :: "bytes \<Rightarrow> bytes \<Rightarrow> bytes \<Rightarrow> bytes \<Rightarrow> bytes"
  chacha20poly1305_decrypt :: "bytes \<Rightarrow> bytes \<Rightarrow> bytes \<Rightarrow> bytes \<Rightarrow> opened"
  scalarmult :: "bytes \<Rightarrow> bytes \<Rightarrow> bytes option"
  scalarmult_base :: "bytes \<Rightarrow> bytes"
  generichash :: "nat \<Rightarrow> bytes \<Rightarrow> bytes \<Rightarrow> bytes"

text \<open>
  The arguments of the ciphers are: key (or AES state), public nonce, associated data,
  message. \<open>scalarmult n p\<close> is \<open>None\<close> when \<open>crypto_scalarmult\<close> returns nonzero.
  \<open>generichash outlen input key\<close> follows the argument order of \<open>crypto_generichash\<close>.
\<close>

text \<open>A datagram handed to \<open>sendmsg\<close>: the path it was sent on (its position in the
  path list at that moment), the addresses of that path, the bytes and the traffic class.\<close>

record datagram =
  dg_path :: nat
  dg_from :: ipaddr
  dg_to :: sockaddr
  dg_data :: bytes
  dg_tc :: cint

text \<open>
  The world outside the engine: the real-time clock (one reading per call of
  \<open>mud_now\<close>), the random generator (one block per call of \<open>randombytes_buf\<close>),
  the datagrams sent so far (latest first), the value \<open>sendmsg\<close> returns for a
  datagram after a given history, and whether \<open>calloc\<close> succeeds.
\<close>

record world =
  clock :: "nat \<Rightarrow> u64"
  clock_reads :: nat
  random :: "nat \<Rightarrow> bytes"
  random_draws :: nat
  sent :: "datagram list"
  sendmsg_ret :: "datagram list \<Rightarrow> datagram \<Rightarrow> u64"
  calloc_ok :: bool

definition mud_now :: "world \<Rightarrow> u64 \<times> world" where
  "mud_now w =
     (clock w (clock_reads w) AND (push_bit 48 1 - 1),
      w\<lparr>clock_reads := Suc (clock_reads w)\<rparr>)"

definition randombytes_buf :: "world \<Rightarrow> nat \<Rightarrow> bytes \<times> world" where
  "randombytes_buf w n =
     (take n (random w (random_draws w)), w\<lparr>random_draws := Suc (random_draws w)\<rparr>)"

section \<open>Engine state\<close>

record path =
  active :: bool
  local_addr :: ipaddr
  addr :: sockaddr
  tc :: cint
  bak_send_time :: u64
  bak_remote :: cint
  bak_local :: cint
  rdt :: u64
  rtt :: u64
  sdt :: u64
  rst :: u64
  r_sdt :: u64
  r_rdt :: u64
  r_rst :: u64
  r_dt :: u64
  limit :: u64
  recv_time :: u64
  send_time :: u64
  pong_time :: u64

record crypto_key =
  encrypt_key :: bytes
  encrypt_state :: bytes
  decrypt_key :: bytes
  decrypt_state :: bytes
  aes :: cint

record crypto_opt =
  src :: bytes
  ad :: bytes
  npub :: bytes

text \<open>
  \<open>struct mud\<close>, with the nested \<open>crypto\<close> and \<open>mtu\<close> structs flattened
  (\<open>crypto.send_time\<close> is \<open>crypto_send_time\<close>, \<open>mtu.local\<close> is \<open>mtu_local\<close>,
  the four key slots are \<open>key_private\<close>, \<open>key_last\<close>, \<open>key_next\<close>,
  \<open>key_current\<close>). The linked list \<open>mud->path\<close> is the list \<open>paths\<close>, head first;
  a \<open>struct path *\<close> is a position in it.
\<close>

record mud =
  send_timeout :: u64
  time_tolerance :: u64
  paths :: "path list"
  crypto_recv_time :: u64
  crypto_send_time :: u64
  secret :: bytes
  public_send :: bytes
  public_recv :: bytes
  key_private :: crypto_key
  key_last :: crypto_key
  key_next :: crypto_key
  key_current :: crypto_key
  use_next :: cint
  crypto_aes :: cint
  bad_key :: cint
  mtu_send_time :: u64
  mtu_remote :: cint
  mtu_local :: cint

section \<open>Configuration entry points\<close>

text \<open>
  The engine as \<open>calloc\<close> leaves it, and the parts of \<open>mud_create\<close>, \<open>mud_set_key\<close>
  and \<open>mud_peer\<close> that set engine state (the socket is part of the world; the
  addresses arrive already parsed). The AES key schedule of a slot is kept as the bytes
  \<open>aes256gcm_beforenm\<close> returned.
\<close>

definition calloc_key :: crypto_key where
  "calloc_key = \<lparr>encrypt_key = replicate 32 0, encrypt_state = [],
                 decrypt_key = replicate 32 0, decrypt_state = [], aes = 0\<rparr>"

definition calloc_mud :: mud where
  "calloc_mud =
     \<lparr>send_timeout = 0, time_tolerance = 0, paths = [], crypto_recv_time = 0,
      crypto_send_time = 0, secret = replicate 32 0,
      public_send = replicate MUD_PKEY_SIZE 0, public_recv = replicate MUD_PKEY_SIZE 0,
      key_private = calloc_key, key_last = calloc_key, key_next = calloc_key,
      key_current = calloc_key, use_next = 0, crypto_aes = 0, bad_key = 0,
      mtu_send_time = 0, mtu_remote = 0, mtu_local = 0\<rparr>"

definition mud_set_key :: "mud \<Rightarrow> bytes \<Rightarrow> mud option" where
  "mud_set_key m key =
     (if length key < MUD_KEY_SIZE then None
      else let k = take MUD_KEY_SIZE key;
               priv = (key_private m)\<lparr>encrypt_key := k, decrypt_key := k\<rparr>
      in Some (m\<lparr>key_private := priv, key_current := priv, key_next := priv,
                 key_last := priv\<rparr>))"

section \<open>Crypto envelope\<close>

definition mud_encrypt_opt :: "sodium \<Rightarrow> crypto_key \<Rightarrow> crypto_opt \<Rightarrow> bytes" where
  "mud_encrypt_opt lib k c =
     (if aes k \<noteq> 0
      then aes256gcm_encrypt_afternm lib (encrypt_state k) (npub c) (ad c) (src c)
      else chacha20poly1305_encrypt lib (encrypt_key k) (npub c) (ad c) (src c))"

definition mud_decrypt_opt :: "sodium \<Rightarrow> crypto_key \<Rightarrow> crypto_opt \<Rightarrow> opened" where
  "mud_decrypt_opt lib k c =
     (if aes k \<noteq> 0
      then aes256gcm_decrypt_afternm lib (decrypt_state k) (npub c) (ad c) (src c)
      else chacha20poly1305_decrypt lib (decrypt_key k) (npub c) (ad c) (src c))"

text \<open>Bytes written at the start of a buffer; the rest of the buffer stays.\<close>

definition store :: "bytes \<Rightarrow> bytes \<Rightarrow> bytes" where
  "store buf written = written @ drop (length written) buf"

fun opened_bytes :: "opened \<Rightarrow> bytes" where
  "opened_bytes (Opened m) = m"
| "opened_bytes (Rejected d) = d"

fun rejected :: "opened \<Rightarrow> bool" where
  "rejected (Opened _) = False"
| "rejected (Rejected _) = True"

definition mud_keyx_init :: "sodium \<Rightarrow> mud \<Rightarrow> world \<Rightarrow> mud \<times> world" where
  "mud_keyx_init lib m w =
     (let (s, w') = randombytes_buf w 32
      in (m\<lparr>secret := s,
            public_send := take 32 (scalarmult_base lib s) @ [ucast (crypto_aes m)],
            public_recv := replicate MUD_PKEY_SIZE 0\<rparr>, w'))"

definition mud_create :: "sodium \<Rightarrow> world \<Rightarrow> bool \<Rightarrow> cint \<Rightarrow> mud \<times> world" where
  "mud_create lib w use_aes mtu =
     (let m0 = calloc_mud\<lparr>send_timeout := MUD_SEND_TIMEOUT,
                           time_tolerance := MUD_TIME_TOLERANCE, mtu_local := mtu\<rparr>;
          (key, w1) = randombytes_buf w MUD_KEY_SIZE;
          m1 = (case mud_set_key m0 key of Some m' \<Rightarrow> m' | None \<Rightarrow> m0);
          m2 = m1\<lparr>crypto_aes := (if use_aes then 1 else 0)\<rparr>
      in mud_keyx_init lib m2 w1)"

text \<open>
  \<open>mud_encrypt\<close> returns the frame size (0 on refusal) and the bytes of the frame in
  \<open>dst\<close>: the six nonce bytes, then what the cipher wrote.
\<close>

definition mud_encrypt :: "sodium \<Rightarrow> mud \<Rightarrow> u64 \<Rightarrow> nat \<Rightarrow> bytes \<Rightarrow> nat \<times> bytes" where
  "mud_encrypt lib m nonce dst_size source =
     (if nonce = 0 then (0, [])
      else let size = length source + MUD_PACKET_MIN_SIZE
      in if size > dst_size then (0, [])
      else let opt = \<lparr>src = source, ad = mud_write48 nonce,
                      npub = mud_write48 nonce @ replicate 10 0\<rparr>
      in (size, mud_write48 nonce @
            (if use_next m \<noteq> 0 then mud_encrypt_opt lib (key_next m) opt
             else mud_encrypt_opt lib (key_current m) opt)))"

text \<open>The \<open>crypto_opt\<close> that \<open>mud_decrypt\<close> builds from a frame: the box after the six
  nonce bytes, the nonce bytes as associated data and as the start of the public nonce.\<close>

definition frame_opt :: "bytes \<Rightarrow> crypto_opt" where
  "frame_opt source =
     \<lparr>src = drop MUD_U48_SIZE source, ad = take MUD_U48_SIZE source,
      npub = take MUD_U48_SIZE source @ replicate 10 0\<rparr>"

text \<open>
  \<open>mud_decrypt\<close> returns its \<open>int\<close> result, the caller's buffer after the attempts,
  and the engine and the world (the promotion draws a fresh secret). The subtraction
  \<open>src_size - MUD_PACKET_MIN_SIZE\<close> is on \<open>size_t\<close> and wraps.
\<close>

definition mud_decrypt ::
  "sodium \<Rightarrow> mud \<Rightarrow> world \<Rightarrow> bytes \<Rightarrow> nat \<Rightarrow> bytes \<Rightarrow> int \<times> bytes \<times> mud \<times> world" where
  "mud_decrypt lib m w dst dst_size source =
     (let size = unat ((word_of_nat (length source) :: u64)
                         - word_of_nat MUD_PACKET_MIN_SIZE)
      in if size > dst_size then (0, dst, m, w)
      else let opt = frame_opt source;
               ret = sint (word_of_nat size :: cint);
               r_current = mud_decrypt_opt lib (key_current m) opt;
               d1 = store dst (opened_bytes r_current)
      in if rejected r_current then
           (let r_next = mud_decrypt_opt lib (key_next m) opt;
                d2 = store d1 (opened_bytes r_next)
            in if \<not> rejected r_next then
                 (let (m', w') = mud_keyx_init lib m w
                  in (ret, d2,
                      m'\<lparr>key_last := key_current m', key_current := key_next m',
                         use_next := 0\<rparr>, w'))
               else
                 (let r_last = mud_decrypt_opt lib (key_last m) opt;
                      d3 = store d2 (opened_bytes r_last)
                  in if rejected r_last then
                       (let r_private = mud_decrypt_opt lib (key_private m) opt;
                            d4 = store d3 (opened_bytes r_private)
                        in if rejected r_private then (- 1, d4, m, w) else (ret, d4, m, w))
                     else (ret, d3, m, w)))
         else (ret, d1, m, w))"

section \<open>Path table\<close>

definition upd_path :: "nat \<Rightarrow> (path \<Rightarrow> path) \<Rightarrow> mud \<Rightarrow> mud" where
  "upd_path i f m = m\<lparr>paths := (paths m)[i := f (paths m ! i)]\<rparr>"

text \<open>
  \<open>mud_send_path\<close> logs the datagram, returns what \<open>sendmsg\<close> returned, writes the
  traffic class into the path's control-message cell and stamps \<open>send_time\<close>.
\<close>

definition mud_send_path ::
  "mud \<Rightarrow> world \<Rightarrow> nat \<Rightarrow> u64 \<Rightarrow> bytes \<Rightarrow> nat \<Rightarrow> cint \<Rightarrow> u64 \<times> mud \<times> world" where
  "mud_send_path m w i now data len tc_arg =
     (if len = 0 then (0, m, w)
      else let p = paths m ! i;
               d = \<lparr>dg_path = i, dg_from = local_addr p, dg_to = addr p,
                    dg_data = take len data, dg_tc = tc_arg\<rparr>;
               ret = sendmsg_ret w (sent w) d
      in (ret, upd_path i (\<lambda>q. q\<lparr>tc := tc_arg, send_time := now\<rparr>) m,
          w\<lparr>sent := d # sent w\<rparr>))"

text \<open>The path that \<open>calloc\<close> returns: every field zero (the two addresses are
  overwritten by \<open>mud_set_path\<close> before anything reads them).\<close>

definition calloc_path :: path where
  "calloc_path =
     \<lparr>active = False, local_addr = IPv4 0, addr = Sin 0 0, tc = 0, bak_send_time = 0,
      bak_remote = 0, bak_local = 0, rdt = 0, rtt = 0, sdt = 0, rst = 0, r_sdt = 0,
      r_rdt = 0, r_rst = 0, r_dt = 0, limit = 0, recv_time = 0, send_time = 0,
      pong_time = 0\<rparr>"

definition mud_set_path :: "path \<Rightarrow> ipaddr \<Rightarrow> sockaddr \<Rightarrow> path" where
  "mud_set_path p la a = p\<lparr>local_addr := la, addr := a, tc := 0\<rparr>"

fun path_lookup :: "ipaddr \<Rightarrow> sockaddr \<Rightarrow> path list \<Rightarrow> nat option" where
  "path_lookup la a [] = None"
| "path_lookup la a (p # ps) =
     (if mud_cmp_ipaddr la (local_addr p) then map_option Suc (path_lookup la a ps)
      else if mud_cmp_addr a (addr p) then map_option Suc (path_lookup la a ps)
      else Some 0)"

definition mud_path ::
  "mud \<Rightarrow> world \<Rightarrow> ipaddr \<Rightarrow> sockaddr \<Rightarrow> bool \<Rightarrow> nat option \<times> mud" where
  "mud_path m w la a create =
     (if ip_family la \<noteq> sa_family a then (None, m)
      else case path_lookup la a (paths m) of
             Some i \<Rightarrow> (Some i, m)
           | None \<Rightarrow>
               if \<not> create then (None, m)
               else if \<not> calloc_ok w then (None, m)
               else (Some 0, m\<lparr>paths := mud_set_path calloc_path la a # paths m\<rparr>))"

text \<open>
  \<open>mud_addrinfo\<close> on a host literal that \<open>inet_pton\<close> has parsed: \<open>htons\<close> keeps
  the low 16 bits of the \<open>int\<close> port.
\<close>

definition mud_addrinfo :: "ipaddr \<Rightarrow> cint \<Rightarrow> sockaddr" where
  "mud_addrinfo host port =
     (case host of IPv4 a \<Rightarrow> Sin (ucast port) a | IPv6 a \<Rightarrow> Sin6 (ucast port) a)"

text \<open>
  \<open>mud_peer\<close>: \<open>name\<close> and \<open>host\<close> are the two address literals as parsed
  (\<open>None\<close> for a null pointer or a literal that does not parse), \<open>port\<close> is the
  \<open>int\<close> argument, tested before it is truncated. The result \<open>None\<close> is the return
  of \<open>-1\<close>.
\<close>

definition mud_peer ::
  "mud \<Rightarrow> world \<Rightarrow> ipaddr option \<Rightarrow> ipaddr option \<Rightarrow> cint \<Rightarrow> cint \<Rightarrow> mud option" where
  "mud_peer m w name host port backup =
     (case name of
        None \<Rightarrow> None
      | Some la \<Rightarrow>
          (case host of
             None \<Rightarrow> None
           | Some h \<Rightarrow>
               if port = 0 then None
               else case mud_path m w la (mud_unmapv4 (mud_addrinfo h port)) True of
                      (None, m') \<Rightarrow> None
                    | (Some i, m') \<Rightarrow>
                        Some (upd_path i (\<lambda>p. p\<lparr>active := True,
                                bak_local := (if backup \<noteq> 0 then 1 else 0)\<rparr>) m')))"

text \<open>Ancillary data of a received datagram, as far as \<open>mud_localaddr\<close> reads it.\<close>

datatype cmsg = Pktinfo4 "32 word" | Pktinfo6 "128 word" | Other_cmsg

fun mud_localaddr :: "cmsg list \<Rightarrow> family \<Rightarrow> ipaddr option" where
  "mud_localaddr [] f = None"
| "mud_localaddr (Pktinfo4 a # cs) f =
     (if f \<noteq> AF_INET6 then Some (IPv4 a) else mud_localaddr cs f)"
| "mud_localaddr (Pktinfo6 a # cs) f =
     (if f = AF_INET6 then Some (IPv6 a) else mud_localaddr cs f)"
| "mud_localaddr (Other_cmsg # cs) f = mud_localaddr cs f"

section \<open>Control protocol\<close>

definition ctrl_data :: "mud \<Rightarrow> mud_msg \<Rightarrow> path \<Rightarrow> bytes" where
  "ctrl_data m msg p =
     (case msg of
        mud_pong \<Rightarrow> mud_write48 (sdt p) @ mud_write48 (rdt p) @ mud_write48 (rst p)
      | mud_keyx \<Rightarrow> public_send m @ public_recv m
      | mud_mtux \<Rightarrow> mud_write48 (scast (mtu_local m))
      | mud_bakx \<Rightarrow> [ucast (bak_local p)]
      | mud_ping \<Rightarrow> [])"

text \<open>The bytes of a control packet: six zero bytes, the send time, the payload and
  the tag that the cipher writes for an empty message under the private key.\<close>

definition ctrl_packet :: "sodium \<Rightarrow> mud \<Rightarrow> mud_msg \<Rightarrow> nat \<Rightarrow> u64 \<Rightarrow> bytes" where
  "ctrl_packet lib m msg i now =
     (let data = ctrl_data m msg (paths m ! i);
          hdr = replicate MUD_U48_SIZE 0 @ mud_write48 now;
          opt = \<lparr>src = [], ad = hdr @ data, npub = replicate 16 0\<rparr>;
          mac = mud_encrypt_opt lib (key_private m) opt
      in hdr @ data @ mac)"

definition mud_ctrl_path ::
  "sodium \<Rightarrow> mud \<Rightarrow> world \<Rightarrow> mud_msg \<Rightarrow> nat \<Rightarrow> u64 \<Rightarrow> mud \<times> world" where
  "mud_ctrl_path lib m w msg i now =
     (let size = length (ctrl_data m msg (paths m ! i));
          (ret, m', w') = mud_send_path m w i now (ctrl_packet lib m msg i now)
                            (size + 2 * MUD_U48_SIZE + MUD_MAC_SIZE) 0
      in (m', w'))"

section \<open>Key exchange\<close>

definition mud_recv_keyx ::
  "sodium \<Rightarrow> mud \<Rightarrow> world \<Rightarrow> nat \<Rightarrow> u64 \<Rightarrow> bytes \<Rightarrow> mud \<times> world" where
  "mud_recv_keyx lib m w i now data =
     (let peer_send = take MUD_PKEY_SIZE data;
          peer_recv = take MUD_PKEY_SIZE (drop MUD_PKEY_SIZE data);
          sync_send = (peer_recv \<noteq> public_send m);
          sync_recv = (public_recv m \<noteq> peer_send);
          shared_recv_public_recv = public_send m;
          m1 = m\<lparr>public_recv := peer_send, use_next := (if sync_send then 0 else 1)\<rparr>;
          (m2, w2) = (if sync_send then mud_ctrl_path lib m1 w mud_keyx i now else (m1, w))
      in case scalarmult lib (secret m2) (take 32 peer_send) of
           None \<Rightarrow> (m2, w2)
         | Some shared_secret \<Rightarrow>
             (let shared_send = shared_secret @ shared_recv_public_recv @ peer_send;
                  shared_recv = shared_secret @ peer_send @ shared_recv_public_recv;
                  ek = generichash lib MUD_KEY_SIZE shared_send (encrypt_key (key_private m2));
                  dk = generichash lib MUD_KEY_SIZE shared_recv (encrypt_key (key_private m2));
                  a = (peer_send ! (MUD_PKEY_SIZE - 1) = 1
                       \<and> shared_recv_public_recv ! (MUD_PKEY_SIZE - 1) = 1);
                  k0 = (key_next m2)\<lparr>encrypt_key := ek, decrypt_key := dk,
                                     aes := (if a then 1 else 0)\<rparr>;
                  k1 = (if a then k0\<lparr>encrypt_state := aes256gcm_beforenm lib ek,
                                     decrypt_state := aes256gcm_beforenm lib dk\<rparr>
                        else k0)
              in (m2\<lparr>key_next := k1, crypto_recv_time := now\<rparr>, w2)))"

section \<open>Receive entry point\<close>

text \<open>What \<open>recvmsg\<close> returned: an error (\<open>-1\<close>), or the bytes of the datagram
  (\<open>packet_size\<close> is their number), the source address and the ancillary data.\<close>

datatype recvmsg = Recv_error | Recv_msg bytes sockaddr "cmsg list"

definition recv_timing :: "u64 \<Rightarrow> u64 \<Rightarrow> path \<Rightarrow> path" where
  "recv_timing now st p =
     (let p1 = (if rdt p \<noteq> 0
                then p\<lparr>rdt := ((now - recv_time p) + 7 * rdt p) div 8,
                       sdt := ((st - rst p) + 7 * sdt p) div 8\<rparr>
                else if recv_time p \<noteq> 0
                then p\<lparr>rdt := now - recv_time p, sdt := st - rst p\<rparr>
                else p)
      in p1\<lparr>rst := st\<rparr>)"

definition recv_pong :: "sodium \<Rightarrow> mud \<Rightarrow> world \<Rightarrow> nat \<Rightarrow> u64 \<Rightarrow> mud \<times> world" where
  "recv_pong lib m w i now =
     (let p = paths m ! i
      in if bak_local p = 0 \<and> recv_time p \<noteq> 0
            \<and> mud_timeout now (pong_time p) MUD_PONG_TIMEOUT
         then (let (m', w') = mud_ctrl_path lib m w mud_pong i now
               in (upd_path i (\<lambda>q. q\<lparr>pong_time := now\<rparr>) m', w'))
         else (m, w))"

definition recv_ctrl ::
  "sodium \<Rightarrow> mud \<Rightarrow> world \<Rightarrow> nat \<Rightarrow> u64 \<Rightarrow> u64 \<Rightarrow> bytes \<Rightarrow> mud \<times> world" where
  "recv_ctrl lib m w i now st packet =
     (let packet_size = length packet
      in if packet_size = MUD_KEYX_SIZE then
           mud_recv_keyx lib m w i now (drop (MUD_U48_SIZE * 2) packet)
         else if packet_size = MUD_MTUX_SIZE then
           (let m1 = m\<lparr>mtu_remote := ucast (mud_read48 (drop (MUD_U48_SIZE * 2) packet))\<rparr>
            in if \<not> active (paths m1 ! i) then mud_ctrl_path lib m1 w mud_mtux i now
               else (m1, w))
         else if packet_size = MUD_PONG_SIZE then
           (upd_path i (\<lambda>p.
              let p1 = p\<lparr>r_sdt := mud_read48 (drop (MUD_U48_SIZE * 2) packet),
                         r_rdt := mud_read48 (drop (MUD_U48_SIZE * 3) packet),
                         r_rst := mud_read48 (drop (MUD_U48_SIZE * 4) packet)\<rparr>
              in p1\<lparr>r_dt := st - r_rst p1, rtt := now - r_rst p1\<rparr>) m, w)
         else if packet_size = MUD_BAKX_SIZE then
           (let m1 = upd_path i (\<lambda>p. p\<lparr>bak_local := 1,
                                       bak_remote := ucast (packet ! (MUD_U48_SIZE * 2))\<rparr>) m
            in if \<not> active (paths m1 ! i) then mud_ctrl_path lib m1 w mud_bakx i now
               else (m1, w))
         else (m, w))"

text \<open>
  The part of \<open>mud_recv\<close> that runs once the path is known: timing samples, pong,
  \<open>recv_time\<close>, then the control dispatch or the decryption of a data frame.
\<close>

definition recv_path ::
  "sodium \<Rightarrow> mud \<Rightarrow> world \<Rightarrow> nat \<Rightarrow> u64 \<Rightarrow> u64 \<Rightarrow> bool \<Rightarrow> bytes \<Rightarrow> bytes \<Rightarrow> nat
     \<Rightarrow> int \<times> bytes \<times> mud \<times> world" where
  "recv_path lib m0 w1 i now st mud_packet packet data data_size =
     (let m1 = upd_path i (recv_timing now st) m0;
          (m2, w2) = recv_pong lib m1 w1 i now;
          m3 = upd_path i (\<lambda>p. p\<lparr>recv_time := now\<rparr>) m2
      in if mud_packet then
           (let (m4, w4) = recv_ctrl lib m3 w2 i now st packet
            in (0, data, m4, w4))
         else
           (let (ret, data', m4, w4) = mud_decrypt lib m3 w2 data data_size packet
            in if ret = - 1 then (0, data', m4\<lparr>bad_key := 1\<rparr>, w4)
               else (ret, data', m4, w4)))"

text \<open>
  \<open>mud_recv lib m w rx data data_size\<close>: \<open>rx\<close> is what \<open>recvmsg\<close> delivers,
  \<open>data\<close> the caller's buffer of \<open>data_size\<close> bytes. The result is the returned
  \<open>int\<close>, the caller's buffer, the engine and the world.
\<close>

definition mud_recv ::
  "sodium \<Rightarrow> mud \<Rightarrow> world \<Rightarrow> recvmsg \<Rightarrow> bytes \<Rightarrow> nat \<Rightarrow> int \<times> bytes \<times> mud \<times> world" where
  "mud_recv lib m w rx data data_size =
     (case rx of
        Recv_error \<Rightarrow> (- 1, data, m, w)
      | Recv_msg packet from cmsgs \<Rightarrow>
          (let packet_size = length packet
           in if packet_size \<le> MUD_PACKET_MIN_SIZE then (0, data, m, w)
           else let (now, w1) = mud_now w;
                    mud_packet = (mud_read48 packet = 0)
           in if mud_packet \<and> packet_size < MUD_PACKET_SIZEOF MUD_U48_SIZE
              then (0, data, m, w1)
           else let st = (if mud_packet then mud_read48 (drop MUD_U48_SIZE packet)
                          else mud_read48 packet)
           in if mud_abs_diff now st \<ge> time_tolerance m then (0, data, m, w1)
           else if mud_packet \<and>
                   rejected (mud_decrypt_opt lib (key_private m)
                     \<lparr>src = drop (packet_size - MUD_MAC_SIZE) packet,
                      ad = take (packet_size - MUD_MAC_SIZE) packet,
                      npub = replicate 16 0\<rparr>)
              then (0, data, m, w1)
           else let a = mud_unmapv4 from
           in case mud_localaddr cmsgs (sa_family a) of
                None \<Rightarrow> (0, data, m, w1)
              | Some la \<Rightarrow>
                  (case mud_path m w1 la a mud_packet of
                     (None, m0) \<Rightarrow> (0, data, m0, w1)
                   | (Some i, m0) \<Rightarrow>
                       recv_path lib m0 w1 i now st mud_packet packet data data_size)))"

section \<open>Control tick\<close>

text \<open>The body of the loop of \<open>mud_send_ctrl\<close> for the path at position \<open>i\<close>.\<close>

definition send_ctrl_path :: "sodium \<Rightarrow> nat \<Rightarrow> mud \<times> world \<Rightarrow> mud \<times> world" where
  "send_ctrl_path lib i s =
     (let (m, w) = s;
          (now, w1) = mud_now w;
          p = paths m ! i
      in if \<not> active p then
           (if bad_key m \<noteq> 0 \<and> mud_timeout now (crypto_send_time m) (send_timeout m)
            then (let (m1, w2) = mud_ctrl_path lib m w1 mud_keyx i now
                  in (m1\<lparr>crypto_send_time := now, bad_key := 0\<rparr>, w2))
            else (m, w1))
         else if mud_timeout now (crypto_send_time m) (send_timeout m)
                 \<and> mud_timeout now (crypto_recv_time m) MUD_KEYX_TIMEOUT
         then (let (m1, w2) = mud_ctrl_path lib m w1 mud_keyx i now
               in (m1\<lparr>crypto_send_time := now\<rparr>, w2))
         else if mtu_remote m = 0 \<and> mud_timeout now (mtu_send_time m) (send_timeout m)
         then (let (m1, w2) = mud_ctrl_path lib m w1 mud_mtux i now
               in (m1\<lparr>mtu_send_time := now\<rparr>, w2))
         else if (bak_local p \<noteq> 0 \<and> bak_remote p = 0)
                 \<and> mud_timeout now (bak_send_time p) (send_timeout m)
         then (let (m1, w2) = mud_ctrl_path lib m w1 mud_bakx i now
               in (upd_path i (\<lambda>q. q\<lparr>bak_send_time := now\<rparr>) m1, w2))
         else if send_time p = 0 then mud_ctrl_path lib m w1 mud_ping i now
         else (m, w1))"

fun send_ctrl_loop :: "sodium \<Rightarrow> nat list \<Rightarrow> mud \<times> world \<Rightarrow> mud \<times> world" where
  "send_ctrl_loop lib [] s = s"
| "send_ctrl_loop lib (i # is) s = send_ctrl_loop lib is (send_ctrl_path lib i s)"

definition mud_send_ctrl :: "sodium \<Rightarrow> mud \<Rightarrow> world \<Rightarrow> mud \<times> world" where
  "mud_send_ctrl lib m w = send_ctrl_loop lib [0..<length (paths m)] (m, w)"

section \<open>Egress selector\<close>

definition mud_get_mtu :: "mud \<Rightarrow> cint" where
  "mud_get_mtu m =
     (if mtu_remote m = 0 \<or> mtu_local m <s mtu_remote m then mtu_local m
      else mtu_remote m)"

definition INT64_MAX :: u64 where "INT64_MAX = 0x7FFFFFFFFFFFFFFF"

text \<open>
  The body of the first loop of \<open>mud_send\<close>. The loop state is the engine, the world,
  \<open>path_min\<close> and \<open>limit_min\<close>. The local \<open>limit\<close> is an \<open>int64_t\<close>: it is compared
  with \<open>elapsed\<close> as unsigned (the usual arithmetic conversions), with \<open>limit_min\<close> as
  signed.
\<close>

definition send_select ::
  "u64 \<Rightarrow> bytes \<Rightarrow> nat \<Rightarrow> cint \<Rightarrow> nat \<Rightarrow> mud \<times> world \<times> nat option \<times> u64
     \<Rightarrow> mud \<times> world \<times> nat option \<times> u64" where
  "send_select now packet packet_size tc_arg i s =
     (let (m, w, path_min, limit_min) = s;
          p = paths m ! i
      in if bak_local p \<noteq> 0 then (m, w, path_min, limit_min)
         else let limit0 = limit p;
                  elapsed = now - send_time p;
                  lim = (if limit0 > elapsed then limit0 + (rtt p div 2 - elapsed)
                         else rtt p div 2)
         in if mud_timeout now (recv_time p) (send_timeout m) then
              (let (ret, m1, w1) = mud_send_path m w i now packet packet_size tc_arg
               in (upd_path i (\<lambda>q. q\<lparr>limit := lim\<rparr>) m1, w1, path_min, limit_min))
            else if lim <s limit_min then (m, w, Some i, lim)
            else (m, w, path_min, limit_min))"

fun send_select_loop ::
  "u64 \<Rightarrow> bytes \<Rightarrow> nat \<Rightarrow> cint \<Rightarrow> nat list \<Rightarrow> mud \<times> world \<times> nat option \<times> u64
     \<Rightarrow> mud \<times> world \<times> nat option \<times> u64" where
  "send_select_loop now packet packet_size tc_arg [] s = s"
| "send_select_loop now packet packet_size tc_arg (i # is) s =
     send_select_loop now packet packet_size tc_arg is
       (send_select now packet packet_size tc_arg i s)"

text \<open>The second loop: the first path with \<open>bak.local\<close> set.\<close>

fun first_backup :: "path list \<Rightarrow> nat option" where
  "first_backup [] = None"
| "first_backup (p # ps) =
     (if bak_local p \<noteq> 0 then Some 0 else map_option Suc (first_backup ps))"

datatype errno = EMSGSIZE | EINVAL

text \<open>
  Everything of \<open>mud_send\<close> after the encryption: both loops and the final
  \<open>mud_send_path\<close>. \<open>ret\<close> is an \<open>ssize_t\<close>, compared with the \<open>int\<close>
  \<open>packet_size\<close> and returned as \<open>int\<close>.
\<close>

definition send_packet ::
  "mud \<Rightarrow> world \<Rightarrow> u64 \<Rightarrow> bytes \<Rightarrow> nat \<Rightarrow> cint \<Rightarrow> int \<times> mud \<times> world" where
  "send_packet m w now packet packet_size tc_arg =
     (let (m1, w1, path_min, limit_min) =
            send_select_loop now packet packet_size tc_arg [0..<length (paths m)]
              (m, w, None, INT64_MAX);
          path_min' = (case path_min of Some i \<Rightarrow> Some i | None \<Rightarrow> first_backup (paths m1))
      in case path_min' of
           None \<Rightarrow> (0, m1, w1)
         | Some i \<Rightarrow>
             (let (ret, m2, w2) = mud_send_path m1 w1 i now packet packet_size tc_arg;
                  m3 = (if ret = word_of_nat packet_size
                        then upd_path i (\<lambda>q. q\<lparr>limit := limit_min\<rparr>) m2 else m2)
              in (sint (ucast ret :: cint), m3, w2)))"

text \<open>
  \<open>mud_send lib m w data tc\<close> returns the \<open>int\<close> result, the \<open>errno\<close> it sets (if
  any), the engine and the world. \<open>size\<close> is the length of \<open>data\<close>, a \<open>size_t\<close>;
  the MTU is cast from \<open>int\<close> to \<open>size_t\<close> for the comparison, which is unsigned.
\<close>

definition mud_send ::
  "sodium \<Rightarrow> mud \<Rightarrow> world \<Rightarrow> bytes \<Rightarrow> cint \<Rightarrow> int \<times> errno option \<times> mud \<times> world" where
  "mud_send lib m w data tc_arg =
     (let (m1, w1) = mud_send_ctrl lib m w;
          size = length data
      in if size = 0 then (0, None, m1, w1)
         else if (word_of_nat size :: u64) > scast (mud_get_mtu m1)
         then (- 1, Some EMSGSIZE, m1, w1)
         else let (now, w2) = mud_now w1;
                  (packet_size, packet) = mud_encrypt lib m1 now 2048 data
         in if packet_size = 0 then (- 1, Some EINVAL, m1, w2)
            else let (ret, m3, w3) = send_packet m1 w2 now packet packet_size tc_arg
            in (ret, None, m3, w3))"

section \<open>The slot order of the data path, as the specification words it\<close>

text \<open>
  The specification tries \<open>current\<close>, then \<open>next\<close>, then \<open>last\<close>, then \<open>private\<close>.
  \<open>try_slots\<close> walks a list of slots in order, lets each attempt write into the
  buffer, and stops at the first slot that opens the frame.
\<close>

datatype slot = Current | Next | Last | Private

fun slot_key :: "mud \<Rightarrow> slot \<Rightarrow> crypto_key" where
  "slot_key m Current = key_current m"
| "slot_key m Next = key_next m"
| "slot_key m Last = key_last m"
| "slot_key m Private = key_private m"

definition slot_order :: "slot list" where
  "slot_order = [Current, Next, Last, Private]"

fun try_slots :: "sodium \<Rightarrow> mud \<Rightarrow> crypto_opt \<Rightarrow> slot list \<Rightarrow> bytes \<Rightarrow> slot option \<times> bytes" where
  "try_slots lib m opt [] buf = (None, buf)"
| "try_slots lib m opt (s # ss) buf =
     (let r = mud_decrypt_opt lib (slot_key m s) opt;
          buf' = store buf (opened_bytes r)
      in if rejected r then try_slots lib m opt ss buf' else (Some s, buf'))"

text \<open>The promotion of the specification: \<open>last := current\<close>, \<open>current := next\<close>, a
  fresh ephemeral key pair, \<open>public.recv\<close> cleared, \<open>use_next\<close> cleared.\<close>

definition promoted :: "sodium \<Rightarrow> mud \<Rightarrow> world \<Rightarrow> mud" where
  "promoted lib m w =
     (let s = take 32 (random w (random_draws w))
      in m\<lparr>secret := s,
           public_send := take 32 (scalarmult_base lib s) @ [ucast (crypto_aes m)],
           public_recv := replicate 33 0,
           key_last := key_current m, key_current := key_next m, use_next := 0\<rparr>)"

section \<open>A small library for concrete runs\<close>

text \<open>
  Concrete runs need concrete primitives. This stand-in is not secure, but it has the
  shape of the real ones: a box is the message followed by a 16-byte tag derived from the
  key; opening checks the tag and, on a mismatch, zeroes the output; the scalar
  multiplication fails on the all-zero point; the hash mixes the key, the shared secret
  and the two public keys of its input, weighting the first and the second differently.
\<close>

definition toy_tag :: "bytes \<Rightarrow> bytes" where
  "toy_tag k = take 16 (k @ replicate 16 0)"

definition toy_seal :: "bytes \<Rightarrow> bytes \<Rightarrow> bytes \<Rightarrow> bytes \<Rightarrow> bytes" where
  "toy_seal k n a msg = msg @ toy_tag k"

definition toy_open :: "bytes \<Rightarrow> bytes \<Rightarrow> bytes \<Rightarrow> bytes \<Rightarrow> opened" where
  "toy_open k n a c =
     (if length c \<ge> 16 \<and> drop (length c - 16) c = toy_tag k
      then Opened (take (length c - 16) c)
      else Rejected (replicate (length c - 16) 0))"

definition toy_hash :: "nat \<Rightarrow> bytes \<Rightarrow> bytes \<Rightarrow> bytes" where
  "toy_hash outlen inp key =
     take outlen
       (map2 (+) key
          (map2 (+) (take 32 inp)
             (map2 (\<lambda>a b. 3 * a + 5 * b) (take 32 (drop 32 inp)) (take 32 (drop 65 inp)))))"

definition toy_sodium :: sodium where
  "toy_sodium =
     \<lparr>aes256gcm_encrypt_afternm = toy_seal, aes256gcm_decrypt_afternm = toy_open,
      aes256gcm_beforenm = (\<lambda>k. k),
      chacha20poly1305_encrypt = toy_seal, chacha20poly1305_decrypt = toy_open,
      scalarmult = (\<lambda>n p. if p = replicate 32 0 then None else Some n),
      scalarmult_base = (\<lambda>n. rev n),
      generichash = toy_hash\<rparr>"

text \<open>A world whose clock starts at 5000 seconds and advances a millisecond per reading,
  whose random blocks are arithmetic progressions of bytes, and where \<open>sendmsg\<close> always
  sends the whole datagram.\<close>

definition world0 :: world where
  "world0 = \<lparr>clock = (\<lambda>n. 5000000000 + 1000 * of_nat n), clock_reads = 0,
             random = (\<lambda>n. map (\<lambda>k. of_nat (37 * n + 11 * k + 5)) [0..<32]),
             random_draws = 0, sent = [],
             sendmsg_ret = (\<lambda>h d. of_nat (length (dg_data d))), calloc_ok = True\<rparr>"

section \<open>Concrete engines and packets\<close>

text \<open>
  An engine created with MTU 1450, given the pre-shared key \<open>psk\<close>, with one active,
  non-backup path from the local address 10.0.0.1 to the peer 10.0.0.2, port 5000.
\<close>

definition psk :: bytes where
  "psk = [140, 57, 144, 86, 222, 106, 10, 188, 204, 133, 152, 217, 68, 163, 70, 32, 87,
           74, 106, 37, 251, 169, 38, 42, 22, 7, 73, 37, 173, 90, 236, 190]"

definition engine0 :: "mud \<times> world" where
  "engine0 =
     (let (m, w) = mud_create toy_sodium world0 False 1450
      in case mud_set_key m psk of
           None \<Rightarrow> (m, w)
         | Some m1 \<Rightarrow>
             (case mud_peer m1 w (Some (IPv4 0x0A000001)) (Some (IPv4 0x0A000002)) 5000 0 of
                None \<Rightarrow> (m1, w) | Some m2 \<Rightarrow> (m2, w)))"

text \<open>A data frame stamped with the clock's first reading, three bytes of payload and a
  tag that no slot of \<open>engine0\<close> accepts.\<close>

definition bad_frame :: bytes where
  "bad_frame = [0, 242, 5, 42, 1, 0, 104, 105, 33, 189, 171, 238, 96, 19, 178, 167, 27, 54,
               112, 158, 69, 57, 196, 81, 25]"

text \<open>A data frame stamped eleven minutes before the clock's first reading, sealed under
  the pre-shared key.\<close>

definition old_frame :: bytes where
  "old_frame = [0, 37, 175, 2, 1, 0, 104, 105, 33, 10, 140, 57, 144, 86, 222, 106, 10, 188,
               204, 133, 152, 217, 68, 163, 70, 32]"

text \<open>A data frame stamped with the clock's first reading, sealed under the pre-shared
  key, with the payload 1, 2, 3.\<close>

definition good_frame :: bytes where
  "good_frame = [0, 242, 5, 42, 1, 0, 104, 105, 33, 140, 57, 144, 86, 222, 106, 10, 188, 204,
                133, 152, 217, 68, 163, 70, 32]"

text \<open>A ping and a backup announcement (payload byte 1), stamped with the clock's first
  reading and authenticated under the pre-shared key.\<close>

definition ping_packet :: bytes where
  "ping_packet = [0, 0, 0, 0, 0, 0, 0, 242, 5, 42, 1, 0, 140, 57, 144, 86, 222, 106, 10, 188,
                 204, 133, 152, 217, 68, 163, 70, 32]"

definition bakx_packet :: bytes where
  "bakx_packet = [0, 0, 0, 0, 0, 0, 0, 242, 5, 42, 1, 0, 1, 140, 57, 144, 86, 222, 106, 10,
                 188, 204, 133, 152, 217, 68, 163, 70, 32]"

text \<open>
  Two key-exchange packets from the peer, authenticated under the pre-shared key. In
  \<open>keyx_packet\<close> the second public key of the payload is the \<open>public.send\<close> of
  \<open>engine0\<close> (the peer has seen our key); in \<open>keyx_unsynced_packet\<close> it is not.
  \<open>engine1\<close> is \<open>engine0\<close> after it received \<open>keyx_packet\<close>.
\<close>

definition keyx_packet :: bytes where
  "keyx_packet = [0, 0, 0, 0, 0, 0, 0, 242, 5, 42, 1, 0, 113, 139, 107, 237, 83, 24, 251, 15,
                  124, 87, 101, 226, 199, 127, 48, 227, 158, 62, 78, 176, 233, 228, 97, 143,
                  156, 167, 227, 40, 163, 48, 2, 118, 0, 127, 116, 105, 94, 83, 72, 61, 50, 39,
                  28, 17, 6, 251, 240, 229, 218, 207, 196, 185, 174, 163, 152, 141, 130, 119,
                  108, 97, 86, 75, 64, 53, 42, 0, 140, 57, 144, 86, 222, 106, 10, 188, 204,
                  133, 152, 217, 68, 163, 70, 32]"

definition keyx_unsynced_packet :: bytes where
  "keyx_unsynced_packet = [0, 0, 0, 0, 0, 0, 0, 242, 5, 42, 1, 0, 113, 139, 107, 237, 83, 24, 251, 15,
                           124, 87, 101, 226, 199, 127, 48, 227, 158, 62, 78, 176, 233, 228, 97, 143,
                           156, 167, 227, 40, 163, 48, 2, 118, 0, 235, 19, 47, 186, 68, 123, 146, 212,
                           52, 186, 34, 147, 181, 22, 26, 212, 124, 63, 19, 206, 236, 128, 101, 127,
                           151, 13, 232, 40, 61, 24, 22, 107, 0, 140, 57, 144, 86, 222, 106, 10, 188,
                           204, 133, 152, 217, 68, 163, 70, 32]"

definition engine1 :: "mud \<times> world" where
  "engine1 =
     (case mud_recv toy_sodium (fst engine0) (snd engine0)
             (Recv_msg keyx_packet (Sin 5000 0x0A000002) [Pktinfo4 0x0A000001]) [] 0 of
        (ret, data, m, w) \<Rightarrow> (m, w))"

section \<open>What the claims assume of the ciphers\<close>

text \<open>
  The contract of an AEAD cipher that the round trip needs: a box opens, under the key
  and with the nonce and the associated data it was sealed with, to the message, and it is
  16 bytes longer than the message.
\<close>

definition sodium_correct :: "sodium \<Rightarrow> bool" where
  "sodium_correct lib \<longleftrightarrow>
     (\<forall>k n a msg.
        chacha20poly1305_decrypt lib k n a (chacha20poly1305_encrypt lib k n a msg) = Opened msg
        \<and> length (chacha20poly1305_encrypt lib k n a msg) = length msg + MUD_MAC_SIZE
        \<and> aes256gcm_decrypt_afternm lib k n a (aes256gcm_encrypt_afternm lib k n a msg)
              = Opened msg
        \<and> length (aes256gcm_encrypt_afternm lib k n a msg) = length msg + MUD_MAC_SIZE)"

section \<open>Packets arriving at a constant interval\<close>

text \<open>The timing samples of a path that the receive path maintains.\<close>

definition timing :: "path \<Rightarrow> u64 \<times> u64 \<times> u64 \<times> u64" where
  "timing p = (rdt p, sdt p, rst p, recv_time p)"

text \<open>
  \<open>admitted lib m i now rx\<close>: the datagram \<open>rx\<close>, read at the clock value \<open>now\<close>,
  passes every check that \<open>mud_recv\<close> makes before it touches a path (length, time
  tolerance, the tag of a control packet, the local address), and the lookup of
  \<open>mud_path\<close> finds the path at position \<open>i\<close>.
\<close>

definition admitted :: "sodium \<Rightarrow> mud \<Rightarrow> nat \<Rightarrow> u64 \<Rightarrow> recvmsg \<Rightarrow> bool" where
  "admitted lib m i now rx =
     (case rx of
        Recv_error \<Rightarrow> False
      | Recv_msg packet sender cmsgs \<Rightarrow>
          (let ctl = (mud_read48 packet = 0);
               st = (if ctl then mud_read48 (drop MUD_U48_SIZE packet) else mud_read48 packet)
           in MUD_PACKET_MIN_SIZE < length packet
              \<and> (ctl \<longrightarrow> MUD_PACKET_SIZEOF MUD_U48_SIZE \<le> length packet)
              \<and> mud_abs_diff now st < time_tolerance m
              \<and> (ctl \<longrightarrow> \<not> rejected (mud_decrypt_opt lib (key_private m)
                            \<lparr>src = drop (length packet - MUD_MAC_SIZE) packet,
                             ad = take (length packet - MUD_MAC_SIZE) packet,
                             npub = replicate 16 0\<rparr>))
              \<and> (case mud_localaddr cmsgs (sa_family (mud_unmapv4 sender)) of
                    None \<Rightarrow> False
                  | Some la \<Rightarrow> path_lookup la (mud_unmapv4 sender) (paths m) = Some i)))"

text \<open>A sequence of calls of \<open>mud_recv\<close>, each with its datagram and the caller's
  buffer; the engine and the world are threaded through.\<close>

fun recv_run ::
  "sodium \<Rightarrow> (recvmsg \<times> bytes \<times> nat) list \<Rightarrow> mud \<times> world \<Rightarrow> mud \<times> world" where
  "recv_run lib [] s = s"
| "recv_run lib (x # xs) s =
     recv_run lib xs
       (snd (snd (mud_recv lib (fst s) (snd s) (fst x) (fst (snd x)) (snd (snd x)))))"

text \<open>The value that the \<open>k\<close>-th next call of \<open>mud_now\<close> returns.\<close>

definition reading :: "world \<Rightarrow> nat \<Rightarrow> u64" where
  "reading w k = fst (mud_now (w\<lparr>clock_reads := clock_reads w + k\<rparr>))"

text \<open>
  \<open>arrivals lib i c0 delta xs (m, w)\<close>: the datagrams of \<open>xs\<close> arrive one per clock
  reading, the readings are \<open>c0\<close>, \<open>c0 + delta\<close>, \<open>c0 + 2 delta\<close>, ... as 64-bit
  numbers (so the 48-bit clock does not wrap in between), and each datagram is admitted
  to the path at position \<open>i\<close> at its reading.
\<close>

definition arrivals ::
  "sodium \<Rightarrow> nat \<Rightarrow> u64 \<Rightarrow> u64 \<Rightarrow> (recvmsg \<times> bytes \<times> nat) list \<Rightarrow> mud \<times> world \<Rightarrow> bool" where
  "arrivals lib i c0 delta xs s \<longleftrightarrow>
     i < length (paths (fst s))
     \<and> (\<forall>k < length xs. reading (snd s) k = c0 + of_nat k * delta
                         \<and> admitted lib (fst s) i (c0 + of_nat k * delta) (fst (xs ! k)))"

text \<open>Two worlds with the same clock at the same reading; two engines on which the
  checks of \<open>admitted\<close> read the same key and the same tolerance.\<close>

definition same_clock :: "world \<Rightarrow> world \<Rightarrow> bool" where
  "same_clock w w' \<longleftrightarrow> clock w' = clock w \<and> clock_reads w' = clock_reads w"

definition same_checks :: "mud \<Rightarrow> mud \<Rightarrow> bool" where
  "same_checks m m' \<longleftrightarrow> key_private m' = key_private m \<and> time_tolerance m' = time_tolerance m"

text \<open>
  Concrete arrivals on the path of \<open>engine0\<close>. \<open>ping_arrival\<close> is \<open>ping_packet\<close>
  from the peer. \<open>engine_warm g\<close> is \<open>engine0\<close> after two pings that arrived \<open>g\<close>
  microseconds apart, under a clock that advances 1000 microseconds per reading from
  then on.
\<close>

definition ping_arrival :: "recvmsg \<times> bytes \<times> nat" where
  "ping_arrival = (Recv_msg ping_packet (Sin 5000 0x0A000002) [Pktinfo4 0x0A000001], [], 0)"

definition gap_clock :: "u64 \<Rightarrow> nat \<Rightarrow> u64" where
  "gap_clock g n =
     (if n = 0 then 5000000000 else 5000000000 + g + 1000 * of_nat (n - 1))"

definition engine_warm :: "u64 \<Rightarrow> mud \<times> world" where
  "engine_warm g =
     recv_run toy_sodium [ping_arrival, ping_arrival]
       (fst engine0, (snd engine0)\<lparr>clock := gap_clock g\<rparr>)"

text \<open>
  A ping stamped \<open>st\<close>, as \<open>mud_ctrl_path\<close> builds it under the pre-shared key, and
  \<open>engine0\<close> after two such pings that arrived 1500 and 500 microseconds before the
  48-bit clock wraps; the next reading is 500.
\<close>

definition ping_at :: "u64 \<Rightarrow> recvmsg \<times> bytes \<times> nat" where
  "ping_at st =
     (Recv_msg (ctrl_packet toy_sodium (fst engine0) mud_ping 0 st) (Sin 5000 0x0A000002)
        [Pktinfo4 0x0A000001], [], 0)"

definition engine_wrap :: "mud \<times> world" where
  "engine_wrap =
     recv_run toy_sodium [ping_at 281474976709156, ping_at 281474976710156]
       (fst engine0, (snd engine0)\<lparr>clock := (\<lambda>n. 281474976709156 + 1000 * of_nat n)\<rparr>)"

section \<open>The control tick, as the specification words it\<close>

text \<open>The datagram that \<open>mud_ctrl_path\<close> hands to \<open>sendmsg\<close> for a message on the path
  at position \<open>i\<close>.\<close>

definition ctrl_datagram :: "sodium \<Rightarrow> mud \<Rightarrow> mud_msg \<Rightarrow> nat \<Rightarrow> u64 \<Rightarrow> datagram" where
  "ctrl_datagram lib m msg i now =
     \<lparr>dg_path = i, dg_from = local_addr (paths m ! i), dg_to = addr (paths m ! i),
      dg_data = take (length (ctrl_data m msg (paths m ! i)) + 2 * MUD_U48_SIZE + MUD_MAC_SIZE)
                  (ctrl_packet lib m msg i now),
      dg_tc = 0\<rparr>"

text \<open>
  The choice of the specification for one path: on a non-active path a key exchange
  when \<open>bad_key\<close> is set and the crypto send timeout has elapsed; on an active path, in
  this order, a key exchange (crypto send timeout and the 60-minute receive timeout
  elapsed), an MTU message (\<open>mtu.remote\<close> unknown, MTU send timeout elapsed), a backup
  announcement (\<open>bak.local\<close> set, \<open>bak.remote\<close> clear, its send timeout elapsed), a
  ping (never sent on this path); else nothing.
\<close>

definition ctrl_choice :: "mud \<Rightarrow> u64 \<Rightarrow> path \<Rightarrow> mud_msg option" where
  "ctrl_choice m now p =
     (if active p then
        (if mud_timeout now (crypto_send_time m) (send_timeout m)
            \<and> mud_timeout now (crypto_recv_time m) MUD_KEYX_TIMEOUT then Some mud_keyx
         else if mtu_remote m = 0 \<and> mud_timeout now (mtu_send_time m) (send_timeout m)
         then Some mud_mtux
         else if bak_local p \<noteq> 0 \<and> bak_remote p = 0
                 \<and> mud_timeout now (bak_send_time p) (send_timeout m)
         then Some mud_bakx
         else if send_time p = 0 then Some mud_ping
         else None)
      else
        (if bad_key m \<noteq> 0 \<and> mud_timeout now (crypto_send_time m) (send_timeout m)
         then Some mud_keyx
         else None))"

text \<open>The datagrams sent between two states of the world, latest first.\<close>

definition sent_since :: "world \<Rightarrow> world \<Rightarrow> datagram list" where
  "sent_since w w' = take (length (sent w') - length (sent w)) (sent w')"

text \<open>
  A serving engine: created and keyed like \<open>engine0\<close>, without a configured peer.
  \<open>server1\<close> is that engine after a ping of the peer created a non-active path,
  \<open>server2\<close> after \<open>bad_frame\<close> then left \<open>bad_key\<close> set.
\<close>

definition server0 :: "mud \<times> world" where
  "server0 =
     (let (m, w) = mud_create toy_sodium world0 False 1450
      in case mud_set_key m psk of None \<Rightarrow> (m, w) | Some m1 \<Rightarrow> (m1, w))"

definition server1 :: "mud \<times> world" where
  "server1 =
     snd (snd (mud_recv toy_sodium (fst server0) (snd server0)
                 (Recv_msg ping_packet (Sin 5000 0x0A000002) [Pktinfo4 0x0A000001]) [] 0))"

definition server2 :: "mud \<times> world" where
  "server2 =
     snd (snd (mud_recv toy_sodium (fst server1) (snd server1)
                 (Recv_msg bad_frame (Sin 5000 0x0A000002) [Pktinfo4 0x0A000001])
                 (replicate 8 0) 8))"

text \<open>
  An MTU message whose value is \<open>0xFFFFFFFF\<close>, and a pong that reports, as the send time
  it answers, the clock's first reading plus one microsecond; both authenticated under
  the pre-shared key. \<open>engine_mtux\<close> is \<open>engine0\<close> after the MTU message.
  \<open>engine_two\<close> is \<open>engine0\<close> with a second peer configured as backup (at the head
  of the path list); \<open>engine_pong\<close> is \<open>engine_two\<close> after the pong arrived on the
  non-backup path.
\<close>

definition mtux_packet :: bytes where
  "mtux_packet = [0, 0, 0, 0, 0, 0, 0, 242, 5, 42, 1, 0, 255, 255, 255, 255, 0, 0, 140, 57,
                  144, 86, 222, 106, 10, 188, 204, 133, 152, 217, 68, 163, 70, 32]"

definition pong_packet :: bytes where
  "pong_packet = [0, 0, 0, 0, 0, 0, 0, 242, 5, 42, 1, 0, 232, 3, 0, 0, 0, 0, 232, 3, 0, 0, 0,
                  0, 1, 242, 5, 42, 1, 0, 140, 57, 144, 86, 222, 106, 10, 188, 204, 133, 152,
                  217, 68, 163, 70, 32]"

definition engine_mtux :: "mud \<times> world" where
  "engine_mtux =
     snd (snd (mud_recv toy_sodium (fst engine0) (snd engine0)
                 (Recv_msg mtux_packet (Sin 5000 0x0A000002) [Pktinfo4 0x0A000001]) [] 0))"

definition engine_two :: "mud \<times> world" where
  "engine_two =
     (case mud_peer (fst engine0) (snd engine0) (Some (IPv4 0x0A000101))
             (Some (IPv4 0x0A000102)) 5000 1 of
        None \<Rightarrow> engine0 | Some m \<Rightarrow> (m, snd engine0))"

definition engine_pong :: "mud \<times> world" where
  "engine_pong =
     snd (snd (mud_recv toy_sodium (fst engine_two) (snd engine_two)
                 (Recv_msg pong_packet (Sin 5000 0x0A000002) [Pktinfo4 0x0A000001]) [] 0))"

section \<open>The first loop of the egress selector\<close>

text \<open>The deadline that the first loop of \<open>mud_send\<close> computes for a path (its local
  \<open>limit\<close>).\<close>

definition deadline :: "u64 \<Rightarrow> path \<Rightarrow> u64" where
  "deadline now p =
     (if limit p > now - send_time p then limit p + (rtt p div 2 - (now - send_time p))
      else rtt p div 2)"

text \<open>A path that the first loop can take as \<open>path_min\<close> whatever it has seen before:
  not a backup path, received within the send timeout, and a deadline below the initial
  \<open>limit_min\<close>.\<close>

definition eligible :: "mud \<Rightarrow> u64 \<Rightarrow> nat \<Rightarrow> bool" where
  "eligible m now k \<longleftrightarrow>
     bak_local (paths m ! k) = 0
     \<and> \<not> mud_timeout now (recv_time (paths m ! k)) (send_timeout m)
     \<and> deadline now (paths m ! k) \<noteq> INT64_MAX"

text \<open>
  What holds of the loop state once the paths at the positions \<open>J\<close> have been handled:
  the timeout, the length of the path list, the paths not yet handled and every
  \<open>bak.local\<close> are as at the start; all datagrams sent so far went to non-backup paths;
  \<open>path_min\<close> is unset with \<open>limit_min\<close> still \<open>INT64_MAX\<close>, or is a non-backup path;
  and it is set as soon as an eligible path has been handled.
\<close>

definition select_inv ::
  "mud \<Rightarrow> world \<Rightarrow> u64 \<Rightarrow> nat set \<Rightarrow> mud \<times> world \<times> nat option \<times> u64 \<Rightarrow> bool" where
  "select_inv m w now J s \<longleftrightarrow>
     (case s of (m', w', path_min, limit_min) \<Rightarrow>
        send_timeout m' = send_timeout m
        \<and> length (paths m') = length (paths m)
        \<and> (\<forall>k. k \<notin> J \<longrightarrow> paths m' ! k = paths m ! k)
        \<and> (\<forall>k. bak_local (paths m' ! k) = bak_local (paths m ! k))
        \<and> (\<exists>new. sent w' = new @ sent w
               \<and> (\<forall>d \<in> set new. bak_local (paths m ! dg_path d) = 0))
        \<and> (case path_min of None \<Rightarrow> limit_min = INT64_MAX
             | Some k \<Rightarrow> bak_local (paths m ! k) = 0)
        \<and> ((\<exists>k \<in> J. eligible m now k) \<longrightarrow> path_min \<noteq> None))"

section \<open>The backup flag under later calls\<close>

text \<open>
  \<open>keeps_backup p p'\<close>: \<open>p'\<close> is the path \<open>p\<close> at a later moment, with the same two
  addresses, and with \<open>bak.local\<close> either as it was or set.
\<close>

definition keeps_backup :: "path \<Rightarrow> path \<Rightarrow> bool" where
  "keeps_backup p p' \<longleftrightarrow>
     local_addr p' = local_addr p \<and> addr p' = addr p
     \<and> (bak_local p' = bak_local p \<or> bak_local p' = 1)"

text \<open>
  New paths are linked in at the head of the list, so the paths of an earlier engine
  are the tail of the list of a later one.
\<close>

definition backup_kept :: "mud \<Rightarrow> mud \<Rightarrow> bool" where
  "backup_kept m m' \<longleftrightarrow>
     length (paths m) \<le> length (paths m')
     \<and> list_all2 keeps_backup (paths m)
          (drop (length (paths m') - length (paths m)) (paths m'))"

text \<open>
  A sequence of calls of the two entry points that move packets, each with its
  arguments; \<open>run\<close> threads the engine and the world through them.
\<close>

datatype call = Call_recv recvmsg bytes nat | Call_send bytes cint

fun run :: "sodium \<Rightarrow> call list \<Rightarrow> mud \<times> world \<Rightarrow> mud \<times> world" where
  "run lib [] s = s"
| "run lib (Call_recv rx data data_size # cs) s =
     run lib cs (snd (snd (mud_recv lib (fst s) (snd s) rx data data_size)))"
| "run lib (Call_send data tc_arg # cs) s =
     run lib cs (snd (snd (mud_send lib (fst s) (snd s) data tc_arg)))"

section \<open>Engines that differ in their path list only\<close>

definition only_paths_differ :: "mud \<Rightarrow> mud \<Rightarrow> bool" where
  "only_paths_differ m m' \<longleftrightarrow> m' = m\<lparr>paths := paths m'\<rparr>"

section \<open>Basic facts\<close>

lemmas mud_sizes =
  MUD_U48_SIZE_def MUD_KEY_SIZE_def MUD_MAC_SIZE_def MUD_PACKET_MIN_SIZE_def
  MUD_PACKET_MAX_SIZE_def MUD_PACKET_SIZEOF_def MUD_PONG_SIZE_def MUD_PKEY_SIZE_def
  MUD_KEYX_SIZE_def MUD_MTUX_SIZE_def MUD_BAKX_SIZE_def

lemmas mud_times =
  MUD_ONE_MSEC_def MUD_ONE_SEC_def MUD_ONE_MIN_def MUD_PONG_TIMEOUT_def
  MUD_KEYX_TIMEOUT_def MUD_SEND_TIMEOUT_def MUD_TIME_TOLERANCE_def

lemma size_no_wrap:
  assumes "MUD_PACKET_MIN_SIZE < n" "n \<le> MUD_PACKET_MAX_SIZE"
  shows "unat ((word_of_nat n :: u64) - word_of_nat MUD_PACKET_MIN_SIZE)
           = n - MUD_PACKET_MIN_SIZE"
proof -
  have "(word_of_nat n :: u64) - word_of_nat MUD_PACKET_MIN_SIZE
          = word_of_nat (n - MUD_PACKET_MIN_SIZE)"
    using assms(1) by simp
  moreover have "n - MUD_PACKET_MIN_SIZE < 2 ^ 64"
    using assms(2) by (simp add: mud_sizes)
  ultimately show ?thesis
    by (simp only: unat_of_nat mod_less len_of_numeral_defs) simp
qed

lemma ret_no_wrap:
  assumes "k < 2 ^ 31"
  shows "sint (word_of_nat k :: cint) = int k"
proof -
  have "sint (word_of_nat k :: cint) = signed_take_bit 31 (int k)"
    by (simp add: signed_of_nat)
  also have "\<dots> = int k"
    using assms by (intro signed_take_bit_int_eq_self) auto
  finally show ?thesis .
qed

lemma mud_keyx_init_promoted:
  "(case mud_keyx_init lib m w of (m', w') \<Rightarrow>
      (r, d, m'\<lparr>key_last := key_current m', key_current := key_next m', use_next := 0\<rparr>, w'))
   = (r, d, promoted lib m w, w\<lparr>random_draws := Suc (random_draws w)\<rparr>)"
  by (simp add: mud_keyx_init_def promoted_def randombytes_buf_def Let_def mud_sizes)

lemma mud_decrypt_slots:
  assumes "MUD_PACKET_MIN_SIZE < length packet" "length packet \<le> MUD_PACKET_MAX_SIZE"
      and "length packet - MUD_PACKET_MIN_SIZE \<le> data_size"
  shows "mud_decrypt lib m w data data_size packet =
     (case try_slots lib m (frame_opt packet) slot_order data of
        (None, buf) \<Rightarrow> (- 1, buf, m, w)
      | (Some Next, buf) \<Rightarrow>
          (int (length packet - MUD_PACKET_MIN_SIZE), buf, promoted lib m w,
           w\<lparr>random_draws := Suc (random_draws w)\<rparr>)
      | (Some s, buf) \<Rightarrow> (int (length packet - MUD_PACKET_MIN_SIZE), buf, m, w))"
proof -
  have sz: "unat ((word_of_nat (length packet) :: u64) - word_of_nat MUD_PACKET_MIN_SIZE)
              = length packet - MUD_PACKET_MIN_SIZE"
    using assms(1,2) by (rule size_no_wrap)
  have rt: "sint (word_of_nat (length packet - MUD_PACKET_MIN_SIZE) :: cint)
              = int (length packet - MUD_PACKET_MIN_SIZE)"
    using assms(2) by (intro ret_no_wrap) (simp add: mud_sizes)
  show ?thesis
    unfolding mud_decrypt_def Let_def sz rt slot_order_def
    using assms(3) by (simp add: Let_def mud_keyx_init_promoted)
qed

lemma opd_refl [simp]: "only_paths_differ m m"
  by (simp add: only_paths_differ_def)

lemma opd_trans: "only_paths_differ a b \<Longrightarrow> only_paths_differ b c \<Longrightarrow> only_paths_differ a c"
  unfolding only_paths_differ_def
  by (cases a, cases b, cases c) simp

lemma opd_upd_path [simp]: "only_paths_differ m (upd_path i f m)"
  by (simp add: only_paths_differ_def upd_path_def)

lemma opd_fields:
  assumes "only_paths_differ m m'"
  shows "key_current m' = key_current m" "key_next m' = key_next m"
    "key_last m' = key_last m" "key_private m' = key_private m"
    "secret m' = secret m" "public_send m' = public_send m" "public_recv m' = public_recv m"
    "use_next m' = use_next m" "bad_key m' = bad_key m" "crypto_aes m' = crypto_aes m"
    "mtu_local m' = mtu_local m" "mtu_remote m' = mtu_remote m"
    "mtu_send_time m' = mtu_send_time m" "crypto_send_time m' = crypto_send_time m"
    "crypto_recv_time m' = crypto_recv_time m" "send_timeout m' = send_timeout m"
    "time_tolerance m' = time_tolerance m"
  by (subst assms [unfolded only_paths_differ_def], simp)+


lemma opd_mud_send_path [simp]:
  "only_paths_differ m (fst (snd (mud_send_path m w i now data len tc_arg)))"
  by (simp add: mud_send_path_def Let_def)

lemma mud_ctrl_path_eq:
  "mud_ctrl_path lib m w msg i now =
     (upd_path i (\<lambda>q. q\<lparr>tc := 0, send_time := now\<rparr>) m,
      w\<lparr>sent := \<lparr>dg_path = i, dg_from = local_addr (paths m ! i), dg_to = addr (paths m ! i),
                   dg_data = take (length (ctrl_data m msg (paths m ! i))
                                     + 2 * MUD_U48_SIZE + MUD_MAC_SIZE)
                               (ctrl_packet lib m msg i now),
                   dg_tc = 0\<rparr> # sent w\<rparr>)"
  by (simp add: mud_ctrl_path_def mud_send_path_def Let_def mud_sizes)

lemma opd_mud_ctrl_path [simp]:
  "only_paths_differ m (fst (mud_ctrl_path lib m w msg i now))"
  by (simp add: mud_ctrl_path_eq)

lemma opd_recv_pong [simp]: "only_paths_differ m (fst (recv_pong lib m w i now))"
  by (simp add: recv_pong_def mud_ctrl_path_eq Let_def only_paths_differ_def upd_path_def)

lemma slot_key_opd: "only_paths_differ m m' \<Longrightarrow> slot_key m' s = slot_key m s"
  by (cases s) (simp_all add: opd_fields)

lemma try_slots_opd:
  "only_paths_differ m m' \<Longrightarrow> try_slots lib m' opt ss buf = try_slots lib m opt ss buf"
  by (induction ss arbitrary: buf) (simp_all add: slot_key_opd Let_def)

lemma not_AF_INET6: "f \<noteq> AF_INET6 \<longleftrightarrow> f = AF_INET"
  by (cases f) simp_all

lemma mud_localaddr_family: "mud_localaddr cs f = Some la \<Longrightarrow> ip_family la = f"
  by (induction cs f rule: mud_localaddr.induct) (auto simp: not_AF_INET6 split: if_splits)

lemma mud_path_found:
  "mud_localaddr cs (sa_family a) = Some la \<Longrightarrow> path_lookup la a (paths m) = Some i \<Longrightarrow>
   mud_path m w la a create = (Some i, m)"
  by (simp add: mud_path_def mud_localaddr_family)

lemma recv_path_data_bad_key:
  assumes len: "MUD_PACKET_MIN_SIZE < length packet" "length packet \<le> MUD_PACKET_MAX_SIZE"
      and buf: "length packet - MUD_PACKET_MIN_SIZE \<le> data_size"
      and rej: "fst (try_slots lib m (frame_opt packet) slot_order data) = None"
  shows "fst (recv_path lib m w i now st False packet data data_size) = 0"
    and "bad_key (fst (snd (snd (recv_path lib m w i now st False packet data data_size)))) = 1"
proof -
  define m1 where "m1 = upd_path i (recv_timing now st) m"
  define m3 where "m3 = upd_path i (\<lambda>p. p\<lparr>recv_time := now\<rparr>) (fst (recv_pong lib m1 w i now))"
  define w2 where "w2 = snd (recv_pong lib m1 w i now)"
  have "only_paths_differ m m1" by (simp add: m1_def)
  moreover have "only_paths_differ m1 (fst (recv_pong lib m1 w i now))" by simp
  moreover have "only_paths_differ (fst (recv_pong lib m1 w i now)) m3" by (simp add: m3_def)
  ultimately have opd: "only_paths_differ m m3" by (blast intro: opd_trans)
  have ts: "fst (try_slots lib m3 (frame_opt packet) slot_order data) = None"
    using rej by (simp add: try_slots_opd [OF opd])
  have dec: "fst (mud_decrypt lib m3 w2 data data_size packet) = - 1"
    using ts by (cases "try_slots lib m3 (frame_opt packet) slot_order data")
      (simp add: mud_decrypt_slots [OF len buf])
  have rp: "recv_path lib m w i now st False packet data data_size =
     (case mud_decrypt lib m3 w2 data data_size packet of
        (ret, data', m4, w4) \<Rightarrow>
           if ret = - 1 then (0, data', m4\<lparr>bad_key := 1\<rparr>, w4) else (ret, data', m4, w4))"
    by (simp add: recv_path_def m1_def m3_def w2_def Let_def case_prod_beta)
  show "fst (recv_path lib m w i now st False packet data data_size) = 0"
    using dec by (simp add: rp case_prod_beta)
  show "bad_key (fst (snd (snd (recv_path lib m w i now st False packet data data_size)))) = 1"
    using dec by (simp add: rp case_prod_beta)
qed

lemma mud_recv_data_reaches_path:
  assumes "MUD_PACKET_MIN_SIZE < length packet"
      and "mud_read48 packet \<noteq> 0"
      and "mud_abs_diff (fst (mud_now w)) (mud_read48 packet) < time_tolerance m"
      and "mud_localaddr cmsgs (sa_family (mud_unmapv4 from)) = Some la"
      and "path_lookup la (mud_unmapv4 from) (paths m) = Some i"
  shows "mud_recv lib m w (Recv_msg packet from cmsgs) data data_size =
           recv_path lib m (snd (mud_now w)) i (fst (mud_now w)) (mud_read48 packet) False
             packet data data_size"
  using assms
  by (simp add: mud_recv_def Let_def case_prod_beta mud_path_found not_le [symmetric])


section \<open>C2: the slot order of the data path\<close>

text \<open>
  Claim C2. For a received data frame (more than 22 bytes, at most the 1500 bytes of the
  receive buffer, and a caller's buffer that holds the payload), \<open>mud_decrypt\<close> tries
  the slots in the order current, next, last, private and stops at the first that opens
  the frame. When that slot is \<open>next\<close> the engine promotes: \<open>last\<close> becomes the
  previous \<open>current\<close>, \<open>current\<close> the previous \<open>next\<close>, the ephemeral key pair is
  drawn afresh with \<open>public.recv\<close> zeroed, and \<open>use_next\<close> is cleared; with any other
  slot the engine is unchanged. When all four slots reject a data frame that arrived in
  tolerance on a known path, \<open>mud_recv\<close> returns 0 and leaves \<open>bad_key\<close> set.
\<close>

theorem decrypt_slot_order:
  assumes "MUD_PACKET_MIN_SIZE < length packet" "length packet \<le> MUD_PACKET_MAX_SIZE"
      and "length packet - MUD_PACKET_MIN_SIZE \<le> data_size"
  shows "mud_decrypt lib m w data data_size packet =
           (case try_slots lib m (frame_opt packet) slot_order data of
              (None, buf) \<Rightarrow> (- 1, buf, m, w)
            | (Some Next, buf) \<Rightarrow>
                (int (length packet - MUD_PACKET_MIN_SIZE), buf, promoted lib m w,
                 w\<lparr>random_draws := Suc (random_draws w)\<rparr>)
            | (Some s, buf) \<Rightarrow> (int (length packet - MUD_PACKET_MIN_SIZE), buf, m, w))
         \<and> (mud_read48 packet \<noteq> 0
              \<and> mud_abs_diff (fst (mud_now w)) (mud_read48 packet) < time_tolerance m
              \<and> mud_localaddr cmsgs (sa_family (mud_unmapv4 from)) = Some la
              \<and> path_lookup la (mud_unmapv4 from) (paths m) = Some i
              \<and> fst (try_slots lib m (frame_opt packet) slot_order data) = None
            \<longrightarrow> fst (mud_recv lib m w (Recv_msg packet from cmsgs) data data_size) = 0
              \<and> bad_key (fst (snd (snd
                    (mud_recv lib m w (Recv_msg packet from cmsgs) data data_size)))) = 1)"
  using assms
  by (simp add: mud_decrypt_slots mud_recv_data_reaches_path recv_path_data_bad_key)

theorem decrypt_slot_order_witness:
  "MUD_PACKET_MIN_SIZE < length bad_frame \<and> length bad_frame \<le> MUD_PACKET_MAX_SIZE
   \<and> length bad_frame - MUD_PACKET_MIN_SIZE \<le> 8
   \<and> mud_read48 bad_frame \<noteq> 0
   \<and> mud_abs_diff (fst (mud_now (snd engine0))) (mud_read48 bad_frame)
        < time_tolerance (fst engine0)
   \<and> mud_localaddr [Pktinfo4 0x0A000001] (sa_family (mud_unmapv4 (Sin 5000 0x0A000002)))
        = Some (IPv4 0x0A000001)
   \<and> path_lookup (IPv4 0x0A000001) (mud_unmapv4 (Sin 5000 0x0A000002)) (paths (fst engine0))
        = Some 0
   \<and> fst (try_slots toy_sodium (fst engine0) (frame_opt bad_frame) slot_order
             (replicate 8 0)) = None
   \<and> fst (mud_recv toy_sodium (fst engine0) (snd engine0)
             (Recv_msg bad_frame (Sin 5000 0x0A000002) [Pktinfo4 0x0A000001])
             (replicate 8 0) 8) = 0
   \<and> bad_key (fst (snd (snd (mud_recv toy_sodium (fst engine0) (snd engine0)
             (Recv_msg bad_frame (Sin 5000 0x0A000002) [Pktinfo4 0x0A000001])
             (replicate 8 0) 8)))) = 1"
proof -
  have h1: "MUD_PACKET_MIN_SIZE < length bad_frame" by code_simp
  have h2: "length bad_frame \<le> MUD_PACKET_MAX_SIZE" by code_simp
  have h3: "length bad_frame - MUD_PACKET_MIN_SIZE \<le> 8" by code_simp
  have h4: "mud_read48 bad_frame \<noteq> 0" by code_simp
  have h5: "mud_abs_diff (fst (mud_now (snd engine0))) (mud_read48 bad_frame)
              < time_tolerance (fst engine0)" by code_simp
  have h6: "mud_localaddr [Pktinfo4 0x0A000001] (sa_family (mud_unmapv4 (Sin 5000 0x0A000002)))
              = Some (IPv4 0x0A000001)" by code_simp
  have h7: "path_lookup (IPv4 0x0A000001) (mud_unmapv4 (Sin 5000 0x0A000002))
              (paths (fst engine0)) = Some 0" by code_simp
  have h8: "fst (try_slots toy_sodium (fst engine0) (frame_opt bad_frame) slot_order
                   (replicate 8 0)) = None" by code_simp
  from decrypt_slot_order [OF h1 h2 h3, THEN conjunct2, rule_format, OF conjI [OF h4
        conjI [OF h5 conjI [OF h6 conjI [OF h7 h8]]]]]
  show ?thesis using h1 h2 h3 h4 h5 h6 h7 h8 by blast
qed

section \<open>C4: the replay window\<close>

text \<open>
  Claim C4. A datagram, control or data, whose send time differs from the receiver's
  clock by at least \<open>time_tolerance\<close> makes \<open>mud_recv\<close> return 0 with the engine
  unchanged (no path created, no timing sample touched, the key slots as they were), the
  caller's buffer unchanged and nothing sent; of the world only the count of clock
  readings moves.
\<close>

theorem replay_window_drop:
  assumes "mud_abs_diff (fst (mud_now w))
             (if mud_read48 packet = 0 then mud_read48 (drop MUD_U48_SIZE packet)
              else mud_read48 packet) \<ge> time_tolerance m"
  shows "mud_recv lib m w (Recv_msg packet from cmsgs) data data_size =
           (0, data, m,
            w\<lparr>clock_reads := clock_reads w
                   + (if length packet \<le> MUD_PACKET_MIN_SIZE then 0 else 1)\<rparr>)"
  using assms by (simp add: mud_recv_def Let_def case_prod_beta mud_now_def)

theorem replay_window_drop_witness:
  "mud_abs_diff (fst (mud_now (snd engine0)))
     (if mud_read48 old_frame = 0 then mud_read48 (drop MUD_U48_SIZE old_frame)
      else mud_read48 old_frame) \<ge> time_tolerance (fst engine0)
   \<and> mud_recv toy_sodium (fst engine0) (snd engine0)
        (Recv_msg old_frame (Sin 5000 0x0A000002) [Pktinfo4 0x0A000001]) (replicate 8 0) 8 =
           (0, replicate 8 0, fst engine0,
            (snd engine0)\<lparr>clock_reads := clock_reads (snd engine0)
                   + (if length old_frame \<le> MUD_PACKET_MIN_SIZE then 0 else 1)\<rparr>)"
proof -
  have h: "mud_abs_diff (fst (mud_now (snd engine0)))
     (if mud_read48 old_frame = 0 then mud_read48 (drop MUD_U48_SIZE old_frame)
      else mud_read48 old_frame) \<ge> time_tolerance (fst engine0)"
    by code_simp
  from replay_window_drop [OF h] show ?thesis using h by blast
qed


section \<open>C10: control packets return nothing to the caller\<close>

text \<open>
  Claim C10. For every control packet (first six bytes zero), whatever the outcome of the
  checks, \<open>mud_recv\<close> returns 0 and leaves the caller's buffer as it was; so this holds
  in particular for the authenticated ones in tolerance. A positive return can only come
  from a datagram whose first six bytes are not all zero, that is from a data packet.
\<close>

theorem control_packet_returns_zero:
  "(mud_read48 packet = 0 \<longrightarrow>
      fst (mud_recv lib m w (Recv_msg packet from cmsgs) data data_size) = 0
      \<and> fst (snd (mud_recv lib m w (Recv_msg packet from cmsgs) data data_size)) = data)
   \<and> (0 < fst (mud_recv lib m w rx data data_size) \<longrightarrow>
        (\<exists>packet from cmsgs. rx = Recv_msg packet from cmsgs \<and> mud_read48 packet \<noteq> 0))"
proof (intro conjI impI)
  assume c: "mud_read48 packet = 0"
  then show "fst (mud_recv lib m w (Recv_msg packet from cmsgs) data data_size) = 0"
    by (simp add: mud_recv_def recv_path_def Let_def split: prod.splits option.splits)
  from c show "fst (snd (mud_recv lib m w (Recv_msg packet from cmsgs) data data_size)) = data"
    by (simp add: mud_recv_def recv_path_def Let_def split: prod.splits option.splits)
next
  assume pos: "0 < fst (mud_recv lib m w rx data data_size)"
  show "\<exists>packet from cmsgs. rx = Recv_msg packet from cmsgs \<and> mud_read48 packet \<noteq> 0"
  proof (cases rx)
    case Recv_error
    with pos show ?thesis by (simp add: mud_recv_def)
  next
    case (Recv_msg packet src_addr cmsgs)
    have "mud_read48 packet \<noteq> 0"
    proof
      assume "mud_read48 packet = 0"
      then have "fst (mud_recv lib m w (Recv_msg packet src_addr cmsgs) data data_size) = 0"
        by (simp add: mud_recv_def recv_path_def Let_def split: prod.splits option.splits)
      with pos Recv_msg show False by simp
    qed
    with Recv_msg show ?thesis by blast
  qed
qed

theorem control_packet_returns_zero_witness:
  "mud_read48 ping_packet = 0
   \<and> \<not> rejected (mud_decrypt_opt toy_sodium (key_private (fst engine0))
          \<lparr>src = drop (length ping_packet - MUD_MAC_SIZE) ping_packet,
           ad = take (length ping_packet - MUD_MAC_SIZE) ping_packet,
           npub = replicate 16 0\<rparr>)
   \<and> mud_abs_diff (fst (mud_now (snd engine0))) (mud_read48 (drop MUD_U48_SIZE ping_packet))
        < time_tolerance (fst engine0)
   \<and> fst (mud_recv toy_sodium (fst engine0) (snd engine0)
        (Recv_msg ping_packet (Sin 5000 0x0A000002) [Pktinfo4 0x0A000001]) (replicate 8 0) 8) = 0
   \<and> fst (snd (mud_recv toy_sodium (fst engine0) (snd engine0)
        (Recv_msg ping_packet (Sin 5000 0x0A000002) [Pktinfo4 0x0A000001]) (replicate 8 0) 8))
        = replicate 8 0
   \<and> 0 < fst (mud_recv toy_sodium (fst engine0) (snd engine0)
        (Recv_msg good_frame (Sin 5000 0x0A000002) [Pktinfo4 0x0A000001]) (replicate 8 0) 8)
   \<and> mud_read48 good_frame \<noteq> 0"
proof -
  have h1: "mud_read48 ping_packet = 0" by code_simp
  have h2: "\<not> rejected (mud_decrypt_opt toy_sodium (key_private (fst engine0))
          \<lparr>src = drop (length ping_packet - MUD_MAC_SIZE) ping_packet,
           ad = take (length ping_packet - MUD_MAC_SIZE) ping_packet,
           npub = replicate 16 0\<rparr>)" by code_simp
  have h3: "mud_abs_diff (fst (mud_now (snd engine0)))
             (mud_read48 (drop MUD_U48_SIZE ping_packet)) < time_tolerance (fst engine0)"
    by code_simp
  have h4: "0 < fst (mud_recv toy_sodium (fst engine0) (snd engine0)
        (Recv_msg good_frame (Sin 5000 0x0A000002) [Pktinfo4 0x0A000001]) (replicate 8 0) 8)"
    by code_simp
  note c = control_packet_returns_zero [of ping_packet toy_sodium "fst engine0" "snd engine0"
      "Sin 5000 0x0A000002" "[Pktinfo4 0x0A000001]" "replicate 8 0" 8
      "Recv_msg good_frame (Sin 5000 0x0A000002) [Pktinfo4 0x0A000001]"]
  from c h4 have "mud_read48 good_frame \<noteq> 0" by blast
  moreover from c h1
  have "fst (mud_recv toy_sodium (fst engine0) (snd engine0)
        (Recv_msg ping_packet (Sin 5000 0x0A000002) [Pktinfo4 0x0A000001]) (replicate 8 0) 8) = 0
   \<and> fst (snd (mud_recv toy_sodium (fst engine0) (snd engine0)
        (Recv_msg ping_packet (Sin 5000 0x0A000002) [Pktinfo4 0x0A000001]) (replicate 8 0) 8))
        = replicate 8 0" by blast
  ultimately show ?thesis using h1 h2 h3 h4 by blast
qed

section \<open>Paths under the receive steps\<close>

lemma paths_upd_path: "paths (upd_path i f m) = (paths m)[i := f (paths m ! i)]"
  by (simp add: upd_path_def)

lemma length_paths_upd_path [simp]: "length (paths (upd_path i f m)) = length (paths m)"
  by (simp add: upd_path_def)

lemma nth_paths_upd_path:
  "paths (upd_path i f m) ! j =
     (if i = j \<and> i < length (paths m) then f (paths m ! i) else paths m ! j)"
  by (cases "i < length (paths m)") (simp_all add: upd_path_def nth_list_update list_update_beyond)

lemma length_paths_mud_ctrl_path [simp]:
  "length (paths (fst (mud_ctrl_path lib m w msg i now))) = length (paths m)"
  by (simp add: mud_ctrl_path_eq)

lemma length_paths_recv_pong [simp]:
  "length (paths (fst (recv_pong lib m w i now))) = length (paths m)"
  by (simp add: recv_pong_def Let_def case_prod_beta)

lemma path_lookup_lt: "path_lookup la a ps = Some i \<Longrightarrow> i < length ps"
  by (induction ps arbitrary: i) (auto split: if_splits)

lemma mud_path_lt: "mud_path m w la a create = (Some i, m0) \<Longrightarrow> i < length (paths m0)"
  by (auto simp: mud_path_def path_lookup_lt split: if_splits option.splits)

lemma recv_ctrl_bakx:
  assumes "length packet = MUD_BAKX_SIZE" "i < length (paths m)"
  shows "bak_local (paths (fst (recv_ctrl lib m w i now st packet)) ! i) = 1"
    and "bak_remote (paths (fst (recv_ctrl lib m w i now st packet)) ! i)
           = ucast (packet ! (MUD_U48_SIZE * 2))"
    and "length (paths (fst (recv_ctrl lib m w i now st packet))) = length (paths m)"
  using assms
  by (simp_all add: recv_ctrl_def Let_def mud_sizes mud_ctrl_path_eq nth_paths_upd_path)

lemma mud_recv_ctrl_reaches_path:
  assumes "MUD_PACKET_SIZEOF MUD_U48_SIZE \<le> length packet"
      and "mud_read48 packet = 0"
      and "mud_abs_diff (fst (mud_now w)) (mud_read48 (drop MUD_U48_SIZE packet))
             < time_tolerance m"
      and "\<not> rejected (mud_decrypt_opt lib (key_private m)
               \<lparr>src = drop (length packet - MUD_MAC_SIZE) packet,
                ad = take (length packet - MUD_MAC_SIZE) packet, npub = replicate 16 0\<rparr>)"
      and "mud_localaddr cmsgs (sa_family (mud_unmapv4 from)) = Some la"
      and "mud_path m (snd (mud_now w)) la (mud_unmapv4 from) True = (Some i, m0)"
  shows "mud_recv lib m w (Recv_msg packet from cmsgs) data data_size =
           recv_path lib m0 (snd (mud_now w)) i (fst (mud_now w))
             (mud_read48 (drop MUD_U48_SIZE packet)) True packet data data_size"
  using assms
  by (simp add: mud_recv_def Let_def case_prod_beta not_le [symmetric] mud_sizes)

lemma recv_path_ctrl:
  "recv_path lib m0 w1 i now st True packet data data_size =
     (0, data,
      recv_ctrl lib (upd_path i (\<lambda>p. p\<lparr>recv_time := now\<rparr>)
                       (fst (recv_pong lib (upd_path i (recv_timing now st) m0) w1 i now)))
        (snd (recv_pong lib (upd_path i (recv_timing now st) m0) w1 i now)) i now st packet)"
  by (simp add: recv_path_def Let_def case_prod_beta)

section \<open>C1: round trip\<close>

text \<open>
  Claim C1 says that a frame made by \<open>mud_encrypt\<close> opens again in \<open>mud_decrypt\<close> on
  the same engine, whatever the engine. A slot holds one key to encrypt and another to
  decrypt; \<open>mud_set_key\<close> makes them equal, a key exchange makes them different. In
  \<open>engine1\<close>, which has received a key exchange that sets \<open>use_next\<close>, the frame is
  sealed with the encrypt key of \<open>next\<close>, and none of the four decrypt keys opens it:
  \<open>mud_decrypt\<close> returns \<open>-1\<close>.
\<close>

lemma engine1_roundtrip:
  "(case engine1 of (m, w) \<Rightarrow>
      use_next m = 1
      \<and> (case mud_encrypt toy_sodium m 5000001000 2048 [104, 105, 33] of (n, frame) \<Rightarrow>
            n = 25 \<and> fst (mud_decrypt toy_sodium m w (replicate 8 0) 8 frame) = - 1))"
  by code_simp

theorem roundtrip_counterexample:
  "use_next (fst engine1) = 1
   \<and> fst (mud_encrypt toy_sodium (fst engine1) 5000001000 2048 [104, 105, 33]) = 25
   \<and> fst (mud_decrypt toy_sodium (fst engine1) (snd engine1) (replicate 8 0) 8
            (snd (mud_encrypt toy_sodium (fst engine1) 5000001000 2048 [104, 105, 33]))) = - 1"
  using engine1_roundtrip unfolding case_prod_beta by blast

lemma length_mud_write48 [simp]: "length (mud_write48 x) = 6"
  by (simp add: mud_write48_def)

lemma frame_opt_encrypt:
  "frame_opt (mud_write48 nonce @ c) =
     \<lparr>src = c, ad = mud_write48 nonce, npub = mud_write48 nonce @ replicate 10 0\<rparr>"
  by (simp add: frame_opt_def mud_sizes)

lemma opens_own_box:
  assumes "sodium_correct lib"
      and "decrypt_key k = encrypt_key k" "decrypt_state k = encrypt_state k"
  shows "mud_decrypt_opt lib k \<lparr>src = mud_encrypt_opt lib k \<lparr>src = P, ad = a, npub = n\<rparr>,
                                  ad = a, npub = n\<rparr> = Opened P"
  using assms by (simp add: mud_decrypt_opt_def mud_encrypt_opt_def sodium_correct_def)

lemma length_mud_encrypt_opt:
  "sodium_correct lib \<Longrightarrow> length (mud_encrypt_opt lib k c) = length (src c) + MUD_MAC_SIZE"
  by (simp add: mud_encrypt_opt_def sodium_correct_def)

text \<open>
  Claim C1, amended. Let the cipher be correct, the nonce nonzero, the plaintext \<open>P\<close> at
  most MTU - 22 bytes with the MTU at most the 1450 bytes that \<open>mud_set_mtu\<close> admits, and
  the caller's buffer at least as long as \<open>P\<close>. If the slot that encrypts (\<open>next\<close> when
  \<open>use_next\<close>, else \<open>current\<close>) holds the same key to decrypt as to encrypt, and, when
  that slot is \<open>next\<close>, the slot \<open>current\<close> tried before it rejects the frame or opens
  it to \<open>P\<close>, then \<open>mud_encrypt\<close> makes a frame of \<open>|P| + 22\<close> bytes and \<open>mud_decrypt\<close>
  on the same engine returns \<open>|P|\<close> with \<open>P\<close> in the buffer.
\<close>

theorem roundtrip_same_key:
  assumes lib: "sodium_correct lib"
      and nonce: "nonce \<noteq> 0"
      and fits: "length P + MUD_PACKET_MIN_SIZE \<le> mtu" "mtu \<le> MUD_PACKET_MAX_SIZE - 50"
      and room: "length P \<le> data_size"
      and sym: "decrypt_key (if use_next m \<noteq> 0 then key_next m else key_current m)
                  = encrypt_key (if use_next m \<noteq> 0 then key_next m else key_current m)"
               "decrypt_state (if use_next m \<noteq> 0 then key_next m else key_current m)
                  = encrypt_state (if use_next m \<noteq> 0 then key_next m else key_current m)"
      and auth: "use_next m \<noteq> 0 \<longrightarrow>
                   rejected (mud_decrypt_opt lib (key_current m)
                               (frame_opt (snd (mud_encrypt lib m nonce 2048 P))))
                   \<or> mud_decrypt_opt lib (key_current m)
                        (frame_opt (snd (mud_encrypt lib m nonce 2048 P))) = Opened P"
  shows "fst (mud_encrypt lib m nonce 2048 P) = length P + MUD_PACKET_MIN_SIZE
         \<and> fst (mud_decrypt lib m w data data_size (snd (mud_encrypt lib m nonce 2048 P)))
             = int (length P)
         \<and> take (length P)
              (fst (snd (mud_decrypt lib m w data data_size
                           (snd (mud_encrypt lib m nonce 2048 P))))) = P"
proof -
  define k where "k = (if use_next m \<noteq> 0 then key_next m else key_current m)"
  define opt where
    "opt = \<lparr>src = P, ad = mud_write48 nonce, npub = mud_write48 nonce @ replicate 10 0\<rparr>"
  define frame where "frame = mud_write48 nonce @ mud_encrypt_opt lib k opt"
  have sz: "length P + MUD_PACKET_MIN_SIZE \<le> 2048"
    using fits by (simp add: mud_sizes)
  have enc: "mud_encrypt lib m nonce 2048 P = (length P + MUD_PACKET_MIN_SIZE, frame)"
    using nonce sz by (simp add: mud_encrypt_def Let_def frame_def opt_def k_def)
  have flen: "length frame = length P + MUD_PACKET_MIN_SIZE"
    by (simp add: frame_def length_mud_encrypt_opt [OF lib] opt_def mud_sizes)
  have fopt: "frame_opt frame = \<lparr>src = mud_encrypt_opt lib k opt, ad = mud_write48 nonce,
                                  npub = mud_write48 nonce @ replicate 10 0\<rparr>"
    by (simp add: frame_def frame_opt_encrypt)
  have own: "mud_decrypt_opt lib k (frame_opt frame) = Opened P"
    unfolding fopt opt_def
    by (rule opens_own_box [OF lib]) (use sym in \<open>simp_all add: k_def\<close>)
  have l1: "MUD_PACKET_MIN_SIZE < length frame \<or> P = []"
    by (auto simp: flen)
  have first: "\<exists>s buf. try_slots lib m (frame_opt frame) slot_order data = (Some s, buf)
                 \<and> take (length P) buf = P"
  proof (cases "use_next m \<noteq> 0")
    case False
    then have "k = key_current m" by (simp add: k_def)
    with own show ?thesis
      by (simp add: slot_order_def store_def)
  next
    case True
    then have kn: "k = key_next m" by (simp add: k_def)
    from auth True enc
    have "rejected (mud_decrypt_opt lib (key_current m) (frame_opt frame))
          \<or> mud_decrypt_opt lib (key_current m) (frame_opt frame) = Opened P"
      by simp
    then show ?thesis
    proof
      assume "rejected (mud_decrypt_opt lib (key_current m) (frame_opt frame))"
      with own kn show ?thesis by (simp add: slot_order_def store_def Let_def)
    next
      assume "mud_decrypt_opt lib (key_current m) (frame_opt frame) = Opened P"
      then show ?thesis by (simp add: slot_order_def store_def)
    qed
  qed
  then obtain s buf where
    ts: "try_slots lib m (frame_opt frame) slot_order data = (Some s, buf)"
    and buf: "take (length P) buf = P" by blast
  show ?thesis
  proof (cases "P = []")
    case True
    have "length frame = MUD_PACKET_MIN_SIZE" using flen True by simp
    then have "mud_decrypt lib m w data data_size frame
                 = (fst (mud_decrypt lib m w data data_size frame),
                    snd (mud_decrypt lib m w data data_size frame))
               \<and> fst (mud_decrypt lib m w data data_size frame) = 0"
      using ts
      by (simp add: mud_decrypt_def Let_def slot_order_def case_prod_beta
          split: if_splits)
    with True enc show ?thesis by simp
  next
    case False
    then have a: "MUD_PACKET_MIN_SIZE < length frame" by (simp add: flen)
    have b: "length frame \<le> MUD_PACKET_MAX_SIZE" using fits by (simp add: flen mud_sizes)
    have c: "length frame - MUD_PACKET_MIN_SIZE \<le> data_size" using room by (simp add: flen)
    have "fst (mud_decrypt lib m w data data_size frame) = int (length P)
          \<and> fst (snd (mud_decrypt lib m w data data_size frame)) = buf"
      using ts by (cases s) (simp_all add: mud_decrypt_slots [OF a b c] flen)
    with enc buf show ?thesis by simp
  qed
qed

lemma length_toy_tag [simp]: "length (toy_tag k) = 16"
  by (simp add: toy_tag_def min_def)

lemma toy_sodium_correct: "sodium_correct toy_sodium"
  by (simp add: sodium_correct_def toy_sodium_def toy_seal_def toy_open_def mud_sizes)

theorem roundtrip_same_key_witness:
  "sodium_correct toy_sodium
   \<and> (5000001000 :: u64) \<noteq> 0
   \<and> length [104, 105, 33 :: byte] + MUD_PACKET_MIN_SIZE \<le> 1450
   \<and> (1450 :: nat) \<le> MUD_PACKET_MAX_SIZE - 50
   \<and> length [104, 105, 33 :: byte] \<le> 8
   \<and> decrypt_key (if use_next (fst engine0) \<noteq> 0 then key_next (fst engine0)
                    else key_current (fst engine0))
       = encrypt_key (if use_next (fst engine0) \<noteq> 0 then key_next (fst engine0)
                      else key_current (fst engine0))
   \<and> decrypt_state (if use_next (fst engine0) \<noteq> 0 then key_next (fst engine0)
                      else key_current (fst engine0))
       = encrypt_state (if use_next (fst engine0) \<noteq> 0 then key_next (fst engine0)
                        else key_current (fst engine0))
   \<and> use_next (fst engine0) = 0
   \<and> fst (mud_decrypt toy_sodium (fst engine0) (snd engine0) (replicate 8 0) 8
            (snd (mud_encrypt toy_sodium (fst engine0) 5000001000 2048 [104, 105, 33])))
       = int (length [104, 105, 33 :: byte])
   \<and> take (length [104, 105, 33 :: byte])
        (fst (snd (mud_decrypt toy_sodium (fst engine0) (snd engine0) (replicate 8 0) 8
            (snd (mud_encrypt toy_sodium (fst engine0) 5000001000 2048 [104, 105, 33])))))
       = [104, 105, 33]"
proof -
  have h2: "(5000001000 :: u64) \<noteq> 0" by simp
  have h3: "length [104, 105, 33 :: byte] + MUD_PACKET_MIN_SIZE \<le> 1450" by (simp add: mud_sizes)
  have h4: "(1450 :: nat) \<le> MUD_PACKET_MAX_SIZE - 50" by (simp add: mud_sizes)
  have h5: "length [104, 105, 33 :: byte] \<le> 8" by simp
  have h6: "decrypt_key (if use_next (fst engine0) \<noteq> 0 then key_next (fst engine0)
                    else key_current (fst engine0))
       = encrypt_key (if use_next (fst engine0) \<noteq> 0 then key_next (fst engine0)
                      else key_current (fst engine0))" by code_simp
  have h7: "decrypt_state (if use_next (fst engine0) \<noteq> 0 then key_next (fst engine0)
                      else key_current (fst engine0))
       = encrypt_state (if use_next (fst engine0) \<noteq> 0 then key_next (fst engine0)
                        else key_current (fst engine0))" by code_simp
  have h8: "use_next (fst engine0) = 0" by code_simp
  then have h9: "use_next (fst engine0) \<noteq> 0 \<longrightarrow>
      rejected (mud_decrypt_opt toy_sodium (key_current (fst engine0))
         (frame_opt (snd (mud_encrypt toy_sodium (fst engine0) 5000001000 2048
                            [104, 105, 33]))))
      \<or> mud_decrypt_opt toy_sodium (key_current (fst engine0))
           (frame_opt (snd (mud_encrypt toy_sodium (fst engine0) 5000001000 2048
                              [104, 105, 33]))) = Opened [104, 105, 33]"
    by simp
  from roundtrip_same_key [OF toy_sodium_correct h2 h3 h4 h5 h6 h7 h9,
      of "snd engine0" "replicate 8 0"]
  show ?thesis using toy_sodium_correct h2 h3 h4 h5 h6 h7 h8 by blast
qed

section \<open>C3: the next encrypt key\<close>

text \<open>
  Claim C3 takes the public pair of the hashed blob from the received payload:
  \<open>(peer_recv, peer_send)\<close>. The code overwrites the first of the two with its own
  \<open>public.send\<close> before hashing. For \<open>keyx_unsynced_packet\<close>, whose \<open>peer_recv\<close> is
  not the \<open>public.send\<close> of \<open>engine0\<close>, the key differs from the claimed hash.
\<close>

theorem keyx_encrypt_key_counterexample:
  "scalarmult toy_sodium (secret (fst engine0))
      (take 32 (take MUD_PKEY_SIZE (drop 12 keyx_unsynced_packet)))
     = Some (secret (fst engine0))
   \<and> encrypt_key (key_next (fst (mud_recv_keyx toy_sodium (fst engine0) (snd engine0) 0
          5000000000 (drop 12 keyx_unsynced_packet))))
       \<noteq> generichash toy_sodium MUD_KEY_SIZE
           (secret (fst engine0)
              @ take MUD_PKEY_SIZE (drop MUD_PKEY_SIZE (drop 12 keyx_unsynced_packet))
              @ take MUD_PKEY_SIZE (drop 12 keyx_unsynced_packet))
           (encrypt_key (key_private (fst engine0)))"
  by code_simp

text \<open>
  Claim C3, amended. When the scalar multiplication of the own secret with the first
  public key of the payload (\<open>peer_send\<close>) succeeds, \<open>next.encrypt_key\<close> is the 32-byte
  keyed hash, keyed with the private key, of the shared secret followed by the pair
  (own \<open>public.send\<close>, \<open>peer_send\<close>). This is the pair \<open>(peer_recv, peer_send)\<close> of the
  payload when the peer has echoed the own public key, that is when \<open>peer_recv\<close> equals
  the own \<open>public.send\<close>.
\<close>

theorem keyx_encrypt_key:
  assumes "scalarmult lib (secret m) (take 32 (take MUD_PKEY_SIZE data)) = Some shared"
  shows "encrypt_key (key_next (fst (mud_recv_keyx lib m w i now data)))
           = generichash lib MUD_KEY_SIZE
               (shared @ public_send m @ take MUD_PKEY_SIZE data)
               (encrypt_key (key_private m))
         \<and> (take MUD_PKEY_SIZE (drop MUD_PKEY_SIZE data) = public_send m \<longrightarrow>
              encrypt_key (key_next (fst (mud_recv_keyx lib m w i now data)))
                = generichash lib MUD_KEY_SIZE
                    (shared @ take MUD_PKEY_SIZE (drop MUD_PKEY_SIZE data)
                       @ take MUD_PKEY_SIZE data)
                    (encrypt_key (key_private m)))"
proof -
  have "encrypt_key (key_next (fst (mud_recv_keyx lib m w i now data)))
           = generichash lib MUD_KEY_SIZE
               (shared @ public_send m @ take MUD_PKEY_SIZE data)
               (encrypt_key (key_private m))"
    using assms
    by (simp add: mud_recv_keyx_def Let_def mud_ctrl_path_eq upd_path_def mud_sizes)
  then show ?thesis by simp
qed



theorem keyx_encrypt_key_witness:
  "scalarmult toy_sodium (secret (fst engine0))
      (take 32 (take MUD_PKEY_SIZE (drop 12 keyx_packet))) = Some (secret (fst engine0))
   \<and> take MUD_PKEY_SIZE (drop MUD_PKEY_SIZE (drop 12 keyx_packet)) = public_send (fst engine0)
   \<and> encrypt_key (key_next (fst (mud_recv_keyx toy_sodium (fst engine0) (snd engine0) 0
          5000000000 (drop 12 keyx_packet))))
       = generichash toy_sodium MUD_KEY_SIZE
           (secret (fst engine0)
              @ take MUD_PKEY_SIZE (drop MUD_PKEY_SIZE (drop 12 keyx_packet))
              @ take MUD_PKEY_SIZE (drop 12 keyx_packet))
           (encrypt_key (key_private (fst engine0)))"
proof -
  have h1: "scalarmult toy_sodium (secret (fst engine0))
      (take 32 (take MUD_PKEY_SIZE (drop 12 keyx_packet))) = Some (secret (fst engine0))"
    by code_simp
  have h2: "take MUD_PKEY_SIZE (drop MUD_PKEY_SIZE (drop 12 keyx_packet))
              = public_send (fst engine0)"
    by code_simp
  from keyx_encrypt_key [OF h1, of "snd engine0" 0 5000000000, THEN conjunct2] h2
  show ?thesis using h1 by blast
qed

section \<open>The timing samples under the receive path\<close>

lemma timing_updates [simp]:
  "timing (p\<lparr>active := x1\<rparr>) = timing p"
  "timing (p\<lparr>local_addr := x2\<rparr>) = timing p"
  "timing (p\<lparr>addr := x3\<rparr>) = timing p"
  "timing (p\<lparr>tc := x4\<rparr>) = timing p"
  "timing (p\<lparr>bak_send_time := x5\<rparr>) = timing p"
  "timing (p\<lparr>bak_remote := x6\<rparr>) = timing p"
  "timing (p\<lparr>bak_local := x7\<rparr>) = timing p"
  "timing (p\<lparr>rtt := x8\<rparr>) = timing p"
  "timing (p\<lparr>r_sdt := x9\<rparr>) = timing p"
  "timing (p\<lparr>r_rdt := x10\<rparr>) = timing p"
  "timing (p\<lparr>r_rst := x11\<rparr>) = timing p"
  "timing (p\<lparr>r_dt := x12\<rparr>) = timing p"
  "timing (p\<lparr>limit := x13\<rparr>) = timing p"
  "timing (p\<lparr>send_time := x14\<rparr>) = timing p"
  "timing (p\<lparr>pong_time := x15\<rparr>) = timing p"
  by (simp_all add: timing_def)

lemma timing_mud_ctrl_path [simp]:
  "timing (paths (fst (mud_ctrl_path lib m w msg i now)) ! j) = timing (paths m ! j)"
  by (simp add: mud_ctrl_path_eq nth_paths_upd_path)

lemma timing_recv_pong [simp]:
  "timing (paths (fst (recv_pong lib m w i now)) ! j) = timing (paths m ! j)"
  by (simp add: recv_pong_def Let_def case_prod_beta mud_ctrl_path_eq nth_paths_upd_path)

lemma paths_mud_recv_keyx:
  "paths (fst (mud_recv_keyx lib m w i now data)) = paths m
   \<or> paths (fst (mud_recv_keyx lib m w i now data))
       = paths (upd_path i (\<lambda>q. q\<lparr>tc := 0, send_time := now\<rparr>) m)"
  by (simp add: mud_recv_keyx_def Let_def mud_ctrl_path_eq upd_path_def split: option.splits)

lemma timing_mud_recv_keyx [simp]:
  "timing (paths (fst (mud_recv_keyx lib m w i now data)) ! j) = timing (paths m ! j)"
  using paths_mud_recv_keyx [of lib m w i now data]
  by (auto simp: nth_paths_upd_path)

lemma length_paths_mud_recv_keyx [simp]:
  "length (paths (fst (mud_recv_keyx lib m w i now data))) = length (paths m)"
  using paths_mud_recv_keyx [of lib m w i now data] by auto

lemma timing_recv_ctrl [simp]:
  "timing (paths (fst (recv_ctrl lib m w i now st packet)) ! j) = timing (paths m ! j)"
  by (simp add: recv_ctrl_def Let_def mud_ctrl_path_eq nth_paths_upd_path)

lemma length_paths_recv_ctrl [simp]:
  "length (paths (fst (recv_ctrl lib m w i now st packet))) = length (paths m)"
  by (simp add: recv_ctrl_def Let_def)

lemma paths_mud_decrypt [simp]:
  "paths (fst (snd (snd (mud_decrypt lib m w data data_size packet)))) = paths m"
  by (simp add: mud_decrypt_def Let_def mud_keyx_init_def randombytes_buf_def case_prod_beta)

lemma recv_path_state:
  "fst (snd (snd (recv_path lib m0 w1 i now st ctl packet data data_size))) =
     (let m3 = upd_path i (\<lambda>p. p\<lparr>recv_time := now\<rparr>)
                 (fst (recv_pong lib (upd_path i (recv_timing now st) m0) w1 i now));
          w2 = snd (recv_pong lib (upd_path i (recv_timing now st) m0) w1 i now)
      in if ctl then fst (recv_ctrl lib m3 w2 i now st packet)
         else if fst (mud_decrypt lib m3 w2 data data_size packet) = - 1
              then (fst (snd (snd (mud_decrypt lib m3 w2 data data_size packet))))\<lparr>bad_key := 1\<rparr>
              else fst (snd (snd (mud_decrypt lib m3 w2 data data_size packet))))"
  by (simp add: recv_path_def Let_def case_prod_beta)

lemma length_paths_recv_path [simp]:
  "length (paths (fst (snd (snd (recv_path lib m0 w1 i now st ctl packet data data_size)))))
     = length (paths m0)"
  by (simp add: recv_path_state Let_def)

lemma timing_recv_time_cong:
  "timing q = timing q' \<Longrightarrow> timing (q\<lparr>recv_time := x\<rparr>) = timing (q'\<lparr>recv_time := x\<rparr>)"
  by (simp add: timing_def)

lemma timing_recv_path:
  assumes "i < length (paths m0)"
  shows "timing (paths (fst (snd (snd
            (recv_path lib m0 w1 i now st ctl packet data data_size)))) ! i)
         = timing ((recv_timing now st (paths m0 ! i))\<lparr>recv_time := now\<rparr>)"
proof -
  define m1 where "m1 = upd_path i (recv_timing now st) m0"
  define m2 where "m2 = fst (recv_pong lib m1 w1 i now)"
  define m3 where "m3 = upd_path i (\<lambda>p. p\<lparr>recv_time := now\<rparr>) m2"
  have "timing (paths m2 ! i) = timing (paths m1 ! i)" by (simp add: m2_def)
  also have "\<dots> = timing (recv_timing now st (paths m0 ! i))"
    using assms by (simp add: m1_def nth_paths_upd_path)
  finally have "timing ((paths m2 ! i)\<lparr>recv_time := now\<rparr>)
                  = timing ((recv_timing now st (paths m0 ! i))\<lparr>recv_time := now\<rparr>)"
    by (rule timing_recv_time_cong)
  moreover have "i < length (paths m2)" using assms by (simp add: m2_def m1_def)
  ultimately have 3: "timing (paths m3 ! i)
                  = timing ((recv_timing now st (paths m0 ! i))\<lparr>recv_time := now\<rparr>)"
    by (simp add: m3_def nth_paths_upd_path)
  show ?thesis
    unfolding recv_path_state Let_def m1_def [symmetric] m2_def [symmetric] m3_def [symmetric]
    using 3 by simp
qed

section \<open>C6: one control message per path and tick\<close>

lemma mud_ctrl_path_datagram:
  "mud_ctrl_path lib m w msg i now =
     (upd_path i (\<lambda>q. q\<lparr>tc := 0, send_time := now\<rparr>) m,
      w\<lparr>sent := ctrl_datagram lib m msg i now # sent w\<rparr>)"
  by (simp add: mud_ctrl_path_eq ctrl_datagram_def)

lemma sent_mud_now [simp]: "sent (snd (mud_now w)) = sent w"
  by (simp add: mud_now_def)

lemma send_ctrl_path_sent:
  "sent (snd (send_ctrl_path lib i (m, w))) =
     (case ctrl_choice m (fst (mud_now w)) (paths m ! i) of
        None \<Rightarrow> sent w
      | Some msg \<Rightarrow> ctrl_datagram lib m msg i (fst (mud_now w)) # sent w)"
  by (simp add: send_ctrl_path_def ctrl_choice_def Let_def case_prod_beta
      mud_ctrl_path_datagram)

lemma send_ctrl_path_bad_key:
  "\<not> active (paths m ! i) \<Longrightarrow>
   ctrl_choice m (fst (mud_now w)) (paths m ! i) = Some mud_keyx \<Longrightarrow>
   bad_key (fst (send_ctrl_path lib i (m, w))) = 0"
  by (simp add: send_ctrl_path_def ctrl_choice_def Let_def case_prod_beta
      mud_ctrl_path_datagram split: if_splits)

lemma dg_path_ctrl_datagram [simp]: "dg_path (ctrl_datagram lib m msg i now) = i"
  by (simp add: ctrl_datagram_def)

lemma send_ctrl_loop_append:
  "send_ctrl_loop lib (xs @ ys) s = send_ctrl_loop lib ys (send_ctrl_loop lib xs s)"
  by (induction xs arbitrary: s) simp_all

lemma send_ctrl_path_new:
  "\<exists>new. sent (snd (send_ctrl_path lib i s)) = new @ sent (snd s)
         \<and> (\<forall>d \<in> set new. dg_path d = i)"
proof (cases s)
  case (Pair m w)
  show ?thesis
    unfolding Pair send_ctrl_path_sent
    by (cases "ctrl_choice m (fst (mud_now w)) (paths m ! i)") simp_all
qed

lemma send_ctrl_loop_new:
  "\<exists>new. sent (snd (send_ctrl_loop lib js s)) = new @ sent (snd s)
         \<and> (\<forall>d \<in> set new. dg_path d \<in> set js)"
proof (induction js arbitrary: s)
  case Nil
  then show ?case by simp
next
  case (Cons j js)
  obtain n1 where n1: "sent (snd (send_ctrl_path lib j s)) = n1 @ sent (snd s)"
      "\<forall>d \<in> set n1. dg_path d = j"
    using send_ctrl_path_new by blast
  obtain n2 where n2: "sent (snd (send_ctrl_loop lib js (send_ctrl_path lib j s)))
        = n2 @ sent (snd (send_ctrl_path lib j s))" "\<forall>d \<in> set n2. dg_path d \<in> set js"
    using Cons.IH by blast
  have "sent (snd (send_ctrl_loop lib (j # js) s)) = (n2 @ n1) @ sent (snd s)"
    using n1(1) n2(1) by simp
  moreover have "\<forall>d \<in> set (n2 @ n1). dg_path d \<in> set (j # js)"
    using n1(2) n2(2) by auto
  ultimately show ?case by blast
qed

lemma sent_since_append: "sent w' = new @ sent w \<Longrightarrow> sent_since w w' = new"
  by (simp add: sent_since_def)


lemma upt_split_at: "i < n \<Longrightarrow> [0..<n] = [0..<i] @ i # [Suc i..<n]"
  by (metis le0 less_imp_le_nat upt_add_eq_append upt_conv_Cons le_add_diff_inverse)

lemma filter_none: "\<forall>d \<in> set xs. dg_path d \<in> set js \<Longrightarrow> i \<notin> set js \<Longrightarrow>
   filter (\<lambda>d. dg_path d = i) xs = []"
  by (induction xs) auto

text \<open>
  Claim C6. In one call of \<open>mud_send_ctrl\<close> the datagrams sent on the path at position
  \<open>i\<close> are none or exactly one: the message that the priority order of the
  specification chooses for that path, evaluated on the engine and the clock reading at
  the moment the loop reaches the path. When that is the key exchange on a non-active
  path, \<open>bad_key\<close> is clear after the path has been handled.
\<close>

theorem send_ctrl_one_message_per_path:
  assumes i: "i < length (paths m)"
  shows "filter (\<lambda>d. dg_path d = i) (sent_since w (snd (mud_send_ctrl lib m w)))
           = (case ctrl_choice (fst (send_ctrl_loop lib [0..<i] (m, w)))
                    (fst (mud_now (snd (send_ctrl_loop lib [0..<i] (m, w)))))
                    (paths (fst (send_ctrl_loop lib [0..<i] (m, w))) ! i) of
                None \<Rightarrow> []
              | Some msg \<Rightarrow>
                  [ctrl_datagram lib (fst (send_ctrl_loop lib [0..<i] (m, w))) msg i
                     (fst (mud_now (snd (send_ctrl_loop lib [0..<i] (m, w)))))])
         \<and> length (filter (\<lambda>d. dg_path d = i)
                      (sent_since w (snd (mud_send_ctrl lib m w)))) \<le> 1
         \<and> (\<not> active (paths (fst (send_ctrl_loop lib [0..<i] (m, w))) ! i)
              \<and> ctrl_choice (fst (send_ctrl_loop lib [0..<i] (m, w)))
                    (fst (mud_now (snd (send_ctrl_loop lib [0..<i] (m, w)))))
                    (paths (fst (send_ctrl_loop lib [0..<i] (m, w))) ! i) = Some mud_keyx
            \<longrightarrow> bad_key (fst (send_ctrl_loop lib [0..<Suc i] (m, w))) = 0)"
proof -
  define s1 where "s1 = send_ctrl_loop lib [0..<i] (m, w)"
  define s2 where "s2 = send_ctrl_path lib i s1"
  define s3 where "s3 = send_ctrl_loop lib [Suc i..<length (paths m)] s2"
  define c where "c = (case ctrl_choice (fst s1) (fst (mud_now (snd s1))) (paths (fst s1) ! i) of
                None \<Rightarrow> []
              | Some msg \<Rightarrow> [ctrl_datagram lib (fst s1) msg i (fst (mud_now (snd s1)))])"
  have whole: "mud_send_ctrl lib m w = s3"
    unfolding mud_send_ctrl_def upt_split_at [OF i] s3_def s2_def s1_def
    by (simp add: send_ctrl_loop_append)
  obtain n1 where n1: "sent (snd s1) = n1 @ sent w" "\<forall>d \<in> set n1. dg_path d \<in> set [0..<i]"
    using send_ctrl_loop_new [of lib "[0..<i]" "(m, w)"] unfolding s1_def by auto
  have n2: "sent (snd s2) = c @ sent (snd s1)"
    unfolding s2_def c_def using send_ctrl_path_sent [of lib i "fst s1" "snd s1"]
    by (simp split: option.splits)
  obtain n3 where n3: "sent (snd s3) = n3 @ sent (snd s2)"
      "\<forall>d \<in> set n3. dg_path d \<in> set [Suc i..<length (paths m)]"
    using send_ctrl_loop_new [of lib "[Suc i..<length (paths m)]" s2] unfolding s3_def by auto
  have "sent (snd s3) = (n3 @ c @ n1) @ sent w"
    using n1(1) n2 n3(1) by simp
  then have since: "sent_since w (snd s3) = n3 @ c @ n1"
    by (rule sent_since_append)
  have f1: "filter (\<lambda>d. dg_path d = i) n1 = []"
    using n1(2) by (rule filter_none) simp
  have f3: "filter (\<lambda>d. dg_path d = i) n3 = []"
    using n3(2) by (rule filter_none) simp
  have fc: "filter (\<lambda>d. dg_path d = i) c = c"
    by (simp add: c_def split: option.splits)
  have filt: "filter (\<lambda>d. dg_path d = i) (sent_since w (snd (mud_send_ctrl lib m w))) = c"
    by (simp add: whole since f1 f3 fc)
  have len: "length c \<le> 1" by (simp add: c_def split: option.splits)
  have bk: "\<not> active (paths (fst s1) ! i) \<and>
        ctrl_choice (fst s1) (fst (mud_now (snd s1))) (paths (fst s1) ! i) = Some mud_keyx
        \<longrightarrow> bad_key (fst (send_ctrl_loop lib [0..<Suc i] (m, w))) = 0"
    using send_ctrl_path_bad_key [of "fst s1" i "snd s1" lib]
    by (simp add: send_ctrl_loop_append s1_def)
  show ?thesis
    using filt len bk unfolding c_def s1_def by simp
qed


lemma server2_facts:
  "(case server2 of (m, w) \<Rightarrow>
      0 < length (paths m) \<and> \<not> active (paths m ! 0)
      \<and> ctrl_choice m (fst (mud_now w)) (paths m ! 0) = Some mud_keyx)"
  by code_simp

theorem send_ctrl_one_message_per_path_witness:
  "0 < length (paths (fst server2))
   \<and> \<not> active (paths (fst server2) ! 0)
   \<and> ctrl_choice (fst server2) (fst (mud_now (snd server2))) (paths (fst server2) ! 0)
        = Some mud_keyx
   \<and> filter (\<lambda>d. dg_path d = 0)
        (sent_since (snd server2) (snd (mud_send_ctrl toy_sodium (fst server2) (snd server2))))
        = [ctrl_datagram toy_sodium (fst server2) mud_keyx 0 (fst (mud_now (snd server2)))]
   \<and> bad_key (fst (send_ctrl_loop toy_sodium [0..<Suc 0] (fst server2, snd server2))) = 0"
proof -
  have f: "0 < length (paths (fst server2)) \<and> \<not> active (paths (fst server2) ! 0)
      \<and> ctrl_choice (fst server2) (fst (mud_now (snd server2))) (paths (fst server2) ! 0)
        = Some mud_keyx"
    using server2_facts unfolding case_prod_beta .
  then have h1: "0 < length (paths (fst server2))"
    and h2: "\<not> active (paths (fst server2) ! 0)"
    and h3: "ctrl_choice (fst server2) (fst (mud_now (snd server2))) (paths (fst server2) ! 0)
        = Some mud_keyx"
    by blast+
  from send_ctrl_one_message_per_path [OF h1, of "snd server2" toy_sodium] h2 h3
  show ?thesis using h1 by simp
qed

section \<open>C7: the MTU ceiling\<close>

text \<open>
  Where \<open>mud_get_mtu\<close> is not negative the ceiling holds: \<open>mud_get_mtu\<close> is the local
  MTU, or the smaller of the two when the remote one is known, the control tick leaves it
  alone, and a payload longer than it makes \<open>mud_send\<close> return \<open>-1\<close> with
  \<open>EMSGSIZE\<close>, having sent nothing but the control messages of the tick.
\<close>

lemma send_ctrl_path_mtu:
  "mtu_local (fst (send_ctrl_path lib i s)) = mtu_local (fst s)"
  "mtu_remote (fst (send_ctrl_path lib i s)) = mtu_remote (fst s)"
  by (cases s; simp add: send_ctrl_path_def Let_def case_prod_beta mud_ctrl_path_datagram
        upd_path_def)+

lemma send_ctrl_loop_mtu:
  "mtu_local (fst (send_ctrl_loop lib js s)) = mtu_local (fst s)
   \<and> mtu_remote (fst (send_ctrl_loop lib js s)) = mtu_remote (fst s)"
  by (induction js arbitrary: s) (simp_all add: send_ctrl_path_mtu)

lemma mud_get_mtu_send_ctrl: "mud_get_mtu (fst (mud_send_ctrl lib m w)) = mud_get_mtu m"
  using send_ctrl_loop_mtu [of lib "[0..<length (paths m)]" "(m, w)"]
  by (simp add: mud_get_mtu_def mud_send_ctrl_def)

lemma sint_mud_get_mtu:
  "sint (mud_get_mtu m) =
     (if mtu_remote m = 0 then sint (mtu_local m)
      else min (sint (mtu_local m)) (sint (mtu_remote m)))"
  by (simp add: mud_get_mtu_def word_sless_alt min_def)

lemma size_t_of_mtu:
  assumes "0 \<le> sint (x :: cint)"
  shows "unat (scast x :: u64) = nat (sint x)"
proof -
  have "sint x < 2 ^ 31" using sint_lt [of x] by simp
  also have "(2 :: int) ^ 31 < 2 ^ 64" by simp
  finally have lt: "sint x < 2 ^ 64" .
  have "uint (scast x :: u64) = sint x mod 2 ^ 64"
    by (simp only: scast_eq uint_word_of_int len_of_numeral_defs) simp
  also have "\<dots> = sint x"
    using assms lt by (rule mod_pos_pos_trivial)
  finally show ?thesis by (simp only: unat_eq_nat_uint)
qed

lemma mud_send_message_too_big:
  assumes "0 \<le> sint (mud_get_mtu m)"
      and "sint (mud_get_mtu m) < int (length data)"
      and "length data < 2 ^ 64"
  shows "mud_send lib m w data tc_arg =
           (- 1, Some EMSGSIZE, fst (mud_send_ctrl lib m w), snd (mud_send_ctrl lib m w))"
proof -
  have "unat (scast (mud_get_mtu m) :: u64) = nat (sint (mud_get_mtu m))"
    using assms(1) by (rule size_t_of_mtu)
  moreover have "unat (word_of_nat (length data) :: u64) = length data"
    using assms(3) by (simp add: unat_of_nat)
  ultimately have "(word_of_nat (length data) :: u64) > scast (mud_get_mtu m)"
    using assms(1,2) by (simp add: word_less_nat_alt)
  moreover have "length data \<noteq> 0" using assms(1,2) by auto
  ultimately show ?thesis
    by (simp add: mud_send_def Let_def case_prod_beta mud_get_mtu_send_ctrl)
qed


lemma engine_mtux_send:
  "(case engine_mtux of (m, w) \<Rightarrow>
      sint (mud_get_mtu m) = - 1
      \<and> (case mud_send toy_sodium m w [104, 105, 33] 0 of (ret, err, m', w') \<Rightarrow>
            ret = 25 \<and> err = None
            \<and> length (dg_data (hd (sent w'))) = 25
            \<and> mud_read48 (dg_data (hd (sent w'))) \<noteq> 0))"
  by code_simp


text \<open>
  Claim C7. \<open>mud_send\<close> compares the size with the MTU after casting the \<open>int\<close> that
  \<open>mud_get_mtu\<close> returns to \<open>size_t\<close>. \<open>mud_set_mtu\<close> keeps the local MTU between
  500 and 1450, but the value a peer announces is stored unchecked: after the MTU message
  \<open>0xFFFFFFFF\<close> the remote MTU is \<open>-1\<close>, \<open>mud_get_mtu\<close> returns \<open>-1\<close>, the cast makes
  it the largest \<open>size_t\<close>, and a payload of three bytes, larger than \<open>-1\<close>, is sent
  as a data frame of 25 bytes instead of being refused.
\<close>

theorem mtu_ceiling_negative_mtu:
  "sint (mud_get_mtu (fst engine_mtux)) = - 1
   \<and> fst (mud_send toy_sodium (fst engine_mtux) (snd engine_mtux) [104, 105, 33] 0) = 25
   \<and> fst (snd (mud_send toy_sodium (fst engine_mtux) (snd engine_mtux) [104, 105, 33] 0))
        = None
   \<and> length (dg_data (hd (sent (snd (snd (snd
          (mud_send toy_sodium (fst engine_mtux) (snd engine_mtux) [104, 105, 33] 0))))))) = 25
   \<and> mud_read48 (dg_data (hd (sent (snd (snd (snd
          (mud_send toy_sodium (fst engine_mtux) (snd engine_mtux) [104, 105, 33] 0)))))))
        \<noteq> 0"
  using engine_mtux_send unfolding case_prod_beta by blast

section \<open>C5: backup preference\<close>

text \<open>
  Where some non-backup path that has received within the send timeout has a deadline
  other than \<open>INT64_MAX\<close>, the preference holds: every datagram that the two loops and
  the final \<open>mud_send_path\<close> send goes to a path with \<open>bak.local = 0\<close>.
\<close>

lemma sless_INT64_MAX: "x \<noteq> INT64_MAX \<Longrightarrow> x <s INT64_MAX"
proof -
  assume ne: "x \<noteq> INT64_MAX"
  have "sint x < 2 ^ 63" using sint_lt [of x] by simp
  moreover have s: "sint INT64_MAX = 2 ^ 63 - 1" by (simp add: INT64_MAX_def)
  moreover have "sint x \<noteq> sint INT64_MAX" using ne by (auto dest: signed_word_eqI)
  ultimately show ?thesis by (simp add: word_sless_alt)
qed

lemma send_select_deadline:
  "send_select now packet packet_size tc_arg i (m, w, pm, lm) =
     (if bak_local (paths m ! i) \<noteq> 0 then (m, w, pm, lm)
      else if mud_timeout now (recv_time (paths m ! i)) (send_timeout m) then
        (upd_path i (\<lambda>q. q\<lparr>limit := deadline now (paths m ! i)\<rparr>)
           (fst (snd (mud_send_path m w i now packet packet_size tc_arg))),
         snd (snd (mud_send_path m w i now packet packet_size tc_arg)), pm, lm)
      else if deadline now (paths m ! i) <s lm then (m, w, Some i, deadline now (paths m ! i))
      else (m, w, pm, lm))"
  by (simp add: send_select_def deadline_def Let_def case_prod_beta)

lemma select_inv_init: "select_inv m w now {} (m, w, None, INT64_MAX)"
  by (simp add: select_inv_def)

lemma select_inv_step:
  assumes inv: "select_inv m w now J s" and i: "i \<notin> J"
  shows "select_inv m w now (insert i J) (send_select now packet packet_size tc_arg i s)"
proof -
  obtain m' w' pm lm where s: "s = (m', w', pm, lm)" by (metis prod_cases4)
  from inv s have st: "send_timeout m' = send_timeout m"
    and len: "length (paths m') = length (paths m)"
    and same: "\<And>k. k \<notin> J \<Longrightarrow> paths m' ! k = paths m ! k"
    and bak: "\<And>k. bak_local (paths m' ! k) = bak_local (paths m ! k)"
    and pmin: "case pm of None \<Rightarrow> lm = INT64_MAX | Some k \<Rightarrow> bak_local (paths m ! k) = 0"
    and el: "(\<exists>k \<in> J. eligible m now k) \<Longrightarrow> pm \<noteq> None"
    by (auto simp: select_inv_def)
  from inv s obtain new where new: "sent w' = new @ sent w"
      "\<forall>d \<in> set new. bak_local (paths m ! dg_path d) = 0"
    by (auto simp: select_inv_def)
  have p: "paths m' ! i = paths m ! i" using same i by simp
  show ?thesis
  proof (cases "bak_local (paths m ! i) \<noteq> 0")
    case True
    then have "send_select now packet packet_size tc_arg i s = s"
      by (simp add: send_select_deadline s p)
    moreover have "\<not> eligible m now i" using True by (simp add: eligible_def)
    ultimately show ?thesis
      using inv by (auto simp: select_inv_def s)
  next
    case nb: False
    show ?thesis
    proof (cases "mud_timeout now (recv_time (paths m ! i)) (send_timeout m)")
      case True
      then have ne: "\<not> eligible m now i" by (simp add: eligible_def)
      have step: "send_select now packet packet_size tc_arg i s =
          (upd_path i (\<lambda>q. q\<lparr>limit := deadline now (paths m ! i)\<rparr>)
             (fst (snd (mud_send_path m' w' i now packet packet_size tc_arg))),
           snd (snd (mud_send_path m' w' i now packet packet_size tc_arg)), pm, lm)"
        using nb True
        by (simp add: send_select_deadline s p st)
      have sent': "\<exists>new'. sent (snd (snd (mud_send_path m' w' i now packet packet_size tc_arg)))
                      = new' @ sent w
                   \<and> (\<forall>d \<in> set new'. bak_local (paths m ! dg_path d) = 0)"
      proof (cases "packet_size = 0")
        case True
        then show ?thesis using new by (simp add: mud_send_path_def)
      next
        case False
        then have "sent (snd (snd (mud_send_path m' w' i now packet packet_size tc_arg)))
            = (\<lparr>dg_path = i, dg_from = local_addr (paths m' ! i), dg_to = addr (paths m' ! i),
                 dg_data = take packet_size packet, dg_tc = tc_arg\<rparr> # new) @ sent w"
          using new(1) by (simp add: mud_send_path_def Let_def)
        moreover have "\<forall>d \<in> set (\<lparr>dg_path = i, dg_from = local_addr (paths m' ! i),
                 dg_to = addr (paths m' ! i),
                 dg_data = take packet_size packet, dg_tc = tc_arg\<rparr> # new).
                   bak_local (paths m ! dg_path d) = 0"
          using new(2) nb by simp
        ultimately show ?thesis by blast
      qed
      define m1 where "m1 = fst (snd (mud_send_path m' w' i now packet packet_size tc_arg))"
      define m2 where "m2 = upd_path i (\<lambda>q. q\<lparr>limit := deadline now (paths m ! i)\<rparr>) m1"
      have m1: "m1 = (if packet_size = 0 then m'
                      else upd_path i (\<lambda>q. q\<lparr>tc := tc_arg, send_time := now\<rparr>) m')"
        by (simp add: m1_def mud_send_path_def Let_def)
      have a: "send_timeout m2 = send_timeout m"
        using st by (simp add: m2_def m1 upd_path_def)
      have b: "length (paths m2) = length (paths m)"
        using len by (simp add: m2_def m1)
      have c: "paths m2 ! k = paths m ! k" if "k \<notin> insert i J" for k
        using that same [of k] by (simp add: m2_def m1 nth_paths_upd_path)
      have d: "bak_local (paths m2 ! k) = bak_local (paths m ! k)" for k
        using bak [of k] by (simp add: m2_def m1 nth_paths_upd_path)
      have e: "(\<exists>k \<in> insert i J. eligible m now k) \<Longrightarrow> pm \<noteq> None"
        using el ne by auto
      show ?thesis
        unfolding step select_inv_def m1_def [symmetric] m2_def [symmetric]
        using a b c d e pmin sent' by simp
    next
      case fresh: False
      show ?thesis
      proof (cases "deadline now (paths m ! i) <s lm")
        case True
        then have "send_select now packet packet_size tc_arg i s
                     = (m', w', Some i, deadline now (paths m ! i))"
          using nb fresh by (simp add: send_select_deadline s p st)
        then show ?thesis
          using inv nb by (auto simp: select_inv_def s)
      next
        case False
        then have step: "send_select now packet packet_size tc_arg i s = s"
          using nb fresh by (simp add: send_select_deadline s p st)
        have "eligible m now i \<Longrightarrow> pm \<noteq> None"
        proof
          assume e: "eligible m now i" and "pm = None"
          then have "lm = INT64_MAX" using pmin by simp
          moreover have "deadline now (paths m ! i) <s INT64_MAX"
            using e by (simp add: eligible_def sless_INT64_MAX)
          ultimately show False using False by simp
        qed
        then show ?thesis
          using inv unfolding step by (auto simp: select_inv_def s)
      qed
    qed
  qed
qed


lemma select_inv_loop:
  "select_inv m w now J s \<Longrightarrow> distinct js \<Longrightarrow> set js \<inter> J = {} \<Longrightarrow>
   select_inv m w now (J \<union> set js) (send_select_loop now packet packet_size tc_arg js s)"
proof (induction js arbitrary: J s)
  case Nil
  then show ?case by simp
next
  case (Cons i js)
  have "select_inv m w now (insert i J) (send_select now packet packet_size tc_arg i s)"
    using Cons.prems by (intro select_inv_step) auto
  moreover have "distinct js" "set js \<inter> insert i J = {}"
    using Cons.prems by auto
  ultimately have "select_inv m w now (insert i J \<union> set js)
      (send_select_loop now packet packet_size tc_arg js
         (send_select now packet packet_size tc_arg i s))"
    by (rule Cons.IH)
  then show ?case by simp
qed

lemma backup_preference:
  assumes j: "j < length (paths m)" and el: "eligible m now j"
  shows "\<forall>d \<in> set (sent_since w (snd (snd (send_packet m w now packet packet_size tc_arg)))).
           bak_local (paths m ! dg_path d) = 0"
proof -
  define s where "s = send_select_loop now packet packet_size tc_arg [0..<length (paths m)]
                        (m, w, None, INT64_MAX)"
  obtain m1 w1 pm lm where s: "s = (m1, w1, pm, lm)" by (metis prod_cases4)
  have "select_inv m w now ({} \<union> set [0..<length (paths m)]) s"
    unfolding s_def by (intro select_inv_loop select_inv_init) simp_all
  then have inv: "select_inv m w now {0..<length (paths m)} s" by simp
  from inv s obtain new where new: "sent w1 = new @ sent w"
      "\<forall>d \<in> set new. bak_local (paths m ! dg_path d) = 0"
    by (auto simp: select_inv_def)
  from inv s j el obtain k where k: "pm = Some k" "bak_local (paths m ! k) = 0"
    by (auto simp: select_inv_def)
  have sp: "snd (snd (send_packet m w now packet packet_size tc_arg))
              = snd (snd (mud_send_path m1 w1 k now packet packet_size tc_arg))"
    using s k(1) by (simp add: send_packet_def s_def [symmetric] Let_def case_prod_beta)
  have "\<exists>new'. sent (snd (snd (mud_send_path m1 w1 k now packet packet_size tc_arg)))
                  = new' @ sent w
               \<and> (\<forall>d \<in> set new'. bak_local (paths m ! dg_path d) = 0)"
  proof (cases "packet_size = 0")
    case True
    then show ?thesis using new by (simp add: mud_send_path_def)
  next
    case False
    then have "sent (snd (snd (mud_send_path m1 w1 k now packet packet_size tc_arg)))
        = (\<lparr>dg_path = k, dg_from = local_addr (paths m1 ! k), dg_to = addr (paths m1 ! k),
             dg_data = take packet_size packet, dg_tc = tc_arg\<rparr> # new) @ sent w"
      using new(1) by (simp add: mud_send_path_def Let_def)
    moreover have "\<forall>d \<in> set (\<lparr>dg_path = k, dg_from = local_addr (paths m1 ! k),
             dg_to = addr (paths m1 ! k),
             dg_data = take packet_size packet, dg_tc = tc_arg\<rparr> # new).
               bak_local (paths m ! dg_path d) = 0"
      using new(2) k(2) by simp
    ultimately show ?thesis by blast
  qed
  then obtain new' where "sent (snd (snd (send_packet m w now packet packet_size tc_arg)))
       = new' @ sent w" "\<forall>d \<in> set new'. bak_local (paths m ! dg_path d) = 0"
    unfolding sp by blast
  then show ?thesis by (simp add: sent_since_append)
qed

lemma engine_pong_send:
  "(case engine_pong of (m, w) \<Rightarrow>
     (case mud_send_ctrl toy_sodium m w of (m1, w1) \<Rightarrow>
        length (paths m1) = 2
        \<and> bak_local (paths m1 ! 0) = 1
        \<and> bak_local (paths m1 ! 1) = 0
        \<and> recv_time (paths m1 ! 1) \<noteq> 0
        \<and> fst (mud_now w1) - recv_time (paths m1 ! 1) < send_timeout m1
        \<and> \<not> mud_timeout (fst (mud_now w1)) (recv_time (paths m1 ! 1)) (send_timeout m1))
     \<and> (case mud_send toy_sodium m w [104, 105, 33] 0 of (ret, err, m', w') \<Rightarrow>
           ret = 25 \<and> err = None
           \<and> mud_read48 (dg_data (hd (sent w'))) \<noteq> 0
           \<and> dg_path (hd (sent w')) = 0
           \<and> filter (\<lambda>d. mud_read48 (dg_data d) \<noteq> 0) (sent_since w w') = [hd (sent w')]))"
  by code_simp

text \<open>
  Claim C5. The first loop of \<open>mud_send\<close> starts with \<open>limit_min = INT64_MAX\<close> and takes
  a path as \<open>path_min\<close> only when its deadline is strictly below \<open>limit_min\<close>. A
  non-backup path whose deadline is \<open>INT64_MAX\<close> itself is therefore never taken, and
  the second loop falls back to the first backup path. In \<open>engine_pong\<close> the non-backup
  path (position 1) has received within the send timeout; its pong gave it the round-trip
  time \<open>2^64 - 1\<close>, hence the deadline \<open>rtt / 2 = INT64_MAX\<close>. \<open>mud_send\<close> then sends
  the data frame on the backup path (position 0), and on no other path.
\<close>

theorem backup_preference_sentinel:
  "length (paths (fst (mud_send_ctrl toy_sodium (fst engine_pong) (snd engine_pong)))) = 2
   \<and> bak_local (paths (fst (mud_send_ctrl toy_sodium (fst engine_pong) (snd engine_pong))) ! 0)
        = 1
   \<and> bak_local (paths (fst (mud_send_ctrl toy_sodium (fst engine_pong) (snd engine_pong))) ! 1)
        = 0
   \<and> recv_time (paths (fst (mud_send_ctrl toy_sodium (fst engine_pong) (snd engine_pong))) ! 1)
        \<noteq> 0
   \<and> fst (mud_now (snd (mud_send_ctrl toy_sodium (fst engine_pong) (snd engine_pong))))
        - recv_time (paths (fst (mud_send_ctrl toy_sodium (fst engine_pong) (snd engine_pong)))
                      ! 1)
        < send_timeout (fst (mud_send_ctrl toy_sodium (fst engine_pong) (snd engine_pong)))
   \<and> \<not> mud_timeout
          (fst (mud_now (snd (mud_send_ctrl toy_sodium (fst engine_pong) (snd engine_pong)))))
          (recv_time (paths (fst (mud_send_ctrl toy_sodium (fst engine_pong) (snd engine_pong)))
                       ! 1))
          (send_timeout (fst (mud_send_ctrl toy_sodium (fst engine_pong) (snd engine_pong))))
   \<and> fst (mud_send toy_sodium (fst engine_pong) (snd engine_pong) [104, 105, 33] 0) = 25
   \<and> fst (snd (mud_send toy_sodium (fst engine_pong) (snd engine_pong) [104, 105, 33] 0))
        = None
   \<and> mud_read48 (dg_data (hd (sent (snd (snd (snd
          (mud_send toy_sodium (fst engine_pong) (snd engine_pong) [104, 105, 33] 0)))))))
        \<noteq> 0
   \<and> dg_path (hd (sent (snd (snd (snd
          (mud_send toy_sodium (fst engine_pong) (snd engine_pong) [104, 105, 33] 0)))))) = 0
   \<and> filter (\<lambda>d. mud_read48 (dg_data d) \<noteq> 0)
        (sent_since (snd engine_pong) (snd (snd (snd
          (mud_send toy_sodium (fst engine_pong) (snd engine_pong) [104, 105, 33] 0)))))
       = [hd (sent (snd (snd (snd
          (mud_send toy_sodium (fst engine_pong) (snd engine_pong) [104, 105, 33] 0)))))]"
  using engine_pong_send unfolding case_prod_beta by blast

section \<open>The backup flag under the entry points\<close>

lemma keeps_backup_refl [simp]: "keeps_backup p p"
  by (simp add: keeps_backup_def)

lemma keeps_backup_trans: "keeps_backup p q \<Longrightarrow> keeps_backup q r \<Longrightarrow> keeps_backup p r"
  by (auto simp: keeps_backup_def)

lemma kb_refl [simp]: "list_all2 keeps_backup ps ps"
  by (simp add: list_all2_conv_all_nth)

lemma kb_trans:
  "list_all2 keeps_backup ps qs \<Longrightarrow> list_all2 keeps_backup qs rs
   \<Longrightarrow> list_all2 keeps_backup ps rs"
  by (rule list_all2_trans [of keeps_backup keeps_backup keeps_backup])
     (auto intro: keeps_backup_trans)

lemma kb_upd_path:
  "(\<And>p. keeps_backup p (f p)) \<Longrightarrow> list_all2 keeps_backup (paths m) (paths (upd_path i f m))"
  by (simp add: list_all2_conv_all_nth nth_paths_upd_path)

lemma kb_upd_path_after:
  assumes "list_all2 keeps_backup ps (paths m)" "\<And>p. keeps_backup p (f p)"
  shows "list_all2 keeps_backup ps (paths (upd_path i f m))"
  using assms(1) kb_upd_path [of f m i, OF assms(2)] by (rule kb_trans)

lemma kb_mud_ctrl_path [simp]:
  "list_all2 keeps_backup (paths m) (paths (fst (mud_ctrl_path lib m w msg i now)))"
  by (simp add: mud_ctrl_path_eq kb_upd_path keeps_backup_def)

lemma kb_recv_pong [simp]:
  "list_all2 keeps_backup (paths m) (paths (fst (recv_pong lib m w i now)))"
proof (cases "bak_local (paths m ! i) = 0 \<and> recv_time (paths m ! i) \<noteq> 0
            \<and> mud_timeout now (pong_time (paths m ! i)) MUD_PONG_TIMEOUT")
  case True
  then have "fst (recv_pong lib m w i now)
      = upd_path i (\<lambda>q. q\<lparr>pong_time := now\<rparr>) (fst (mud_ctrl_path lib m w mud_pong i now))"
    by (simp add: recv_pong_def Let_def case_prod_beta)
  then show ?thesis
    by (simp add: kb_upd_path_after [OF kb_mud_ctrl_path] keeps_backup_def)
next
  case False
  then show ?thesis by (auto simp: recv_pong_def Let_def)
qed

lemma kb_mud_recv_keyx [simp]:
  "list_all2 keeps_backup (paths m) (paths (fst (mud_recv_keyx lib m w i now data)))"
  using paths_mud_recv_keyx [of lib m w i now data]
  by (auto simp: kb_upd_path keeps_backup_def)

lemma kb_recv_ctrl [simp]:
  "list_all2 keeps_backup (paths m) (paths (fst (recv_ctrl lib m w i now st packet)))"
proof -
  let ?m1 = "m\<lparr>mtu_remote := ucast (mud_read48 (drop (MUD_U48_SIZE * 2) packet))\<rparr>"
  let ?m2 = "upd_path i (\<lambda>p. p\<lparr>bak_local := 1,
                bak_remote := ucast (packet ! (MUD_U48_SIZE * 2))\<rparr>) m"
  have 1: "list_all2 keeps_backup (paths m) (paths (fst (mud_ctrl_path lib ?m1 w mud_mtux i now)))"
    using kb_mud_ctrl_path [of ?m1 lib w mud_mtux i now] by simp
  have 2: "list_all2 keeps_backup (paths m) (paths ?m2)"
    by (rule kb_upd_path) (simp add: keeps_backup_def)
  have 3: "list_all2 keeps_backup (paths m) (paths (fst (mud_ctrl_path lib ?m2 w mud_bakx i now)))"
    using 2 kb_mud_ctrl_path by (rule kb_trans)
  have 4: "list_all2 keeps_backup (paths m) (paths (upd_path i (\<lambda>p.
              let p1 = p\<lparr>r_sdt := a, r_rdt := b, r_rst := c\<rparr>
              in p1\<lparr>r_dt := st - r_rst p1, rtt := now - r_rst p1\<rparr>) m))" for a b c
    by (rule kb_upd_path) (simp add: keeps_backup_def)
  consider "length packet = MUD_KEYX_SIZE" | "length packet = MUD_MTUX_SIZE"
    | "length packet = MUD_PONG_SIZE" | "length packet = MUD_BAKX_SIZE"
    | "length packet \<notin> {MUD_KEYX_SIZE, MUD_MTUX_SIZE, MUD_PONG_SIZE, MUD_BAKX_SIZE}"
    by auto
  then show ?thesis
  proof cases
    case 1
    then show ?thesis by (simp add: recv_ctrl_def)
  next
    case 2
    then show ?thesis using 1 by (simp add: recv_ctrl_def mud_sizes Let_def)
  next
    case 3
    then show ?thesis using 4 by (simp add: recv_ctrl_def mud_sizes)
  next
    case 4
    then show ?thesis using 2 3 by (simp add: recv_ctrl_def mud_sizes Let_def)
  next
    case 5
    then show ?thesis by (simp add: recv_ctrl_def)
  qed
qed

lemma kb_recv_path:
  "list_all2 keeps_backup (paths m0)
     (paths (fst (snd (snd (recv_path lib m0 w1 i now st ctl packet data data_size)))))"
proof -
  define m1 where "m1 = upd_path i (recv_timing now st) m0"
  define m2 where "m2 = fst (recv_pong lib m1 w1 i now)"
  define m3 where "m3 = upd_path i (\<lambda>p. p\<lparr>recv_time := now\<rparr>) m2"
  have 1: "list_all2 keeps_backup (paths m0) (paths m1)"
    unfolding m1_def by (rule kb_upd_path) (simp add: keeps_backup_def recv_timing_def Let_def)
  have 2: "list_all2 keeps_backup (paths m0) (paths m2)"
    unfolding m2_def using 1 kb_recv_pong by (rule kb_trans)
  have 3: "list_all2 keeps_backup (paths m0) (paths m3)"
    unfolding m3_def using 2 by (rule kb_upd_path_after) (simp add: keeps_backup_def)
  have 4: "list_all2 keeps_backup (paths m0) (paths (fst (recv_ctrl lib m3 w2 i now st packet)))"
    for w2 using 3 kb_recv_ctrl by (rule kb_trans)
  show ?thesis
    using 3 4 by (simp add: recv_path_state Let_def m3_def m2_def m1_def)
qed

lemma backup_kept_refl [simp]: "backup_kept m m"
  by (simp add: backup_kept_def)

lemma backup_kept_iff:
  "backup_kept m m' \<longleftrightarrow> (\<exists>new ps. paths m' = new @ ps \<and> list_all2 keeps_backup (paths m) ps)"
proof
  assume a: "backup_kept m m'"
  let ?d = "length (paths m') - length (paths m)"
  have "paths m' = take ?d (paths m') @ drop ?d (paths m')" by simp
  then show "\<exists>new ps. paths m' = new @ ps \<and> list_all2 keeps_backup (paths m) ps"
    using a unfolding backup_kept_def by blast
next
  assume "\<exists>new ps. paths m' = new @ ps \<and> list_all2 keeps_backup (paths m) ps"
  then obtain new ps where p: "paths m' = new @ ps" "list_all2 keeps_backup (paths m) ps"
    by blast
  have "length ps = length (paths m)" using p(2) by (simp add: list_all2_lengthD)
  then show "backup_kept m m'"
    using p by (simp add: backup_kept_def)
qed

lemma backup_kept_trans:
  assumes "backup_kept a b" "backup_kept b c"
  shows "backup_kept a c"
proof -
  obtain n1 p1 where 1: "paths b = n1 @ p1" "list_all2 keeps_backup (paths a) p1"
    using assms(1) unfolding backup_kept_iff by blast
  obtain n2 p2 where 2: "paths c = n2 @ p2" "list_all2 keeps_backup (paths b) p2"
    using assms(2) unfolding backup_kept_iff by blast
  obtain q1 q2 where 3: "p2 = q1 @ q2" "list_all2 keeps_backup n1 q1"
      "list_all2 keeps_backup p1 q2"
    using 2(2) unfolding 1(1) by (auto simp: list_all2_append1)
  have "paths c = (n2 @ q1) @ q2" using 2(1) 3(1) by simp
  moreover have "list_all2 keeps_backup (paths a) q2" using 1(2) 3(3) by (rule kb_trans)
  ultimately show ?thesis unfolding backup_kept_iff by blast
qed

lemma backup_kept_same: "list_all2 keeps_backup (paths m) (paths m') \<Longrightarrow> backup_kept m m'"
  unfolding backup_kept_iff by (metis append_Nil)

lemma backup_kept_mud_path:
  "backup_kept m (snd (mud_path m w la a create))"
proof -
  have "backup_kept m (m\<lparr>paths := x # paths m\<rparr>)" for x
    unfolding backup_kept_iff by (rule exI [of _ "[x]"]) simp
  then show ?thesis
    by (simp add: mud_path_def split: option.splits)
qed

lemma backup_kept_mud_recv:
  "backup_kept m (fst (snd (snd (mud_recv lib m w rx data data_size))))"
proof (cases rx)
  case Recv_error
  then show ?thesis by (simp add: mud_recv_def)
next
  case (Recv_msg packet src_addr cmsgs)
  have step: "backup_kept m (fst (snd (snd (case mud_path m w1 la a c of
                     (None, m0) \<Rightarrow> (0, data, m0, w1)
                   | (Some i, m0) \<Rightarrow>
                       recv_path lib m0 w1 i now st c' packet data data_size))))"
    for w1 la a c c' now st
  proof (cases "mud_path m w1 la a c")
    case (Pair r m0)
    have k: "backup_kept m m0" using backup_kept_mud_path [of m w1 la a c] Pair by simp
    show ?thesis
    proof (cases r)
      case None
      then show ?thesis using k Pair by simp
    next
      case (Some i)
      have "backup_kept m0
          (fst (snd (snd (recv_path lib m0 w1 i now st c' packet data data_size))))"
        by (rule backup_kept_same) (rule kb_recv_path)
      with k have "backup_kept m
          (fst (snd (snd (recv_path lib m0 w1 i now st c' packet data data_size))))"
        by (rule backup_kept_trans)
      then show ?thesis using Pair Some by simp
    qed
  qed
  show ?thesis
    unfolding Recv_msg mud_recv_def Let_def
    by (simp add: step case_prod_beta [of _ "mud_now w"] split: option.splits)
qed


lemma kb_mud_send_path [simp]:
  "list_all2 keeps_backup (paths m)
     (paths (fst (snd (mud_send_path m w i now data len tc_arg))))"
  by (simp add: mud_send_path_def Let_def kb_upd_path keeps_backup_def)

lemma kb_send_ctrl_path:
  "list_all2 keeps_backup (paths (fst s)) (paths (fst (send_ctrl_path lib i s)))"
proof (cases s)
  case (Pair m w)
  have 1: "list_all2 keeps_backup (paths m)
             (paths (upd_path i (\<lambda>q. q\<lparr>bak_send_time := now\<rparr>)
                (fst (mud_ctrl_path lib m w1 msg i now))))" for now w1 msg
    by (rule kb_upd_path_after [OF kb_mud_ctrl_path]) (simp add: keeps_backup_def)
  have 2: "list_all2 keeps_backup (paths m)
             (paths (fst (mud_ctrl_path lib m w1 msg i now)))" for now w1 msg
    by (rule kb_mud_ctrl_path)
  show ?thesis
    unfolding Pair send_ctrl_path_def Let_def case_prod_beta
    using 1 2 by simp
qed

lemma kb_send_ctrl_loop:
  "list_all2 keeps_backup (paths (fst s)) (paths (fst (send_ctrl_loop lib js s)))"
proof (induction js arbitrary: s)
  case Nil
  then show ?case by simp
next
  case (Cons j js)
  have "list_all2 keeps_backup (paths (fst s))
          (paths (fst (send_ctrl_loop lib js (send_ctrl_path lib j s))))"
    using kb_send_ctrl_path Cons.IH by (rule kb_trans)
  then show ?case by simp
qed

lemma kb_send_select:
  "list_all2 keeps_backup (paths (fst s))
     (paths (fst (send_select now packet packet_size tc_arg i s)))"
proof -
  obtain m w pm lm where s: "s = (m, w, pm, lm)" by (cases s) auto
  have 1: "list_all2 keeps_backup (paths m)
      (paths (upd_path i (\<lambda>q. q\<lparr>limit := l\<rparr>)
         (fst (snd (mud_send_path m w i now packet packet_size tc_arg)))))" for l
    by (rule kb_upd_path_after [OF kb_mud_send_path]) (simp add: keeps_backup_def)
  show ?thesis
    unfolding s send_select_def Let_def case_prod_beta
    using 1 by simp
qed

lemma kb_send_select_loop:
  "list_all2 keeps_backup (paths (fst s))
     (paths (fst (send_select_loop now packet packet_size tc_arg js s)))"
proof (induction js arbitrary: s)
  case Nil
  then show ?case by simp
next
  case (Cons j js)
  have "list_all2 keeps_backup (paths (fst s))
          (paths (fst (send_select_loop now packet packet_size tc_arg js
                         (send_select now packet packet_size tc_arg j s))))"
    using kb_send_select Cons.IH by (rule kb_trans)
  then show ?case by simp
qed

lemma kb_send_packet:
  "list_all2 keeps_backup (paths m)
     (paths (fst (snd (send_packet m w now packet packet_size tc_arg))))"
proof -
  define s1 where "s1 = send_select_loop now packet packet_size tc_arg [0..<length (paths m)]
              (m, w, None, INT64_MAX)"
  have 1: "list_all2 keeps_backup (paths m) (paths (fst s1))"
    unfolding s1_def
    using kb_send_select_loop [of "(m, w, None, INT64_MAX)" now packet packet_size tc_arg]
    by simp
  have 2: "list_all2 keeps_backup (paths m)
      (paths (fst (snd (mud_send_path (fst s1) w1 i now packet packet_size tc_arg))))" for w1 i
    using 1 kb_mud_send_path by (rule kb_trans)
  have 3: "list_all2 keeps_backup (paths m)
      (paths (upd_path i (\<lambda>q. q\<lparr>limit := l\<rparr>)
         (fst (snd (mud_send_path (fst s1) w1 i now packet packet_size tc_arg)))))" for w1 i l
    using 2 by (rule kb_upd_path_after) (simp add: keeps_backup_def)
  show ?thesis
    unfolding send_packet_def Let_def case_prod_beta s1_def [symmetric]
    using 1 2 3 by (simp split: option.splits)
qed

lemma kb_mud_send:
  "list_all2 keeps_backup (paths m)
     (paths (fst (snd (snd (mud_send lib m w data tc_arg)))))"
proof -
  define m1 where "m1 = fst (mud_send_ctrl lib m w)"
  have 1: "list_all2 keeps_backup (paths m) (paths m1)"
    unfolding m1_def mud_send_ctrl_def
    using kb_send_ctrl_loop [of "(m, w)" lib] by simp
  have 2: "list_all2 keeps_backup (paths m)
      (paths (fst (snd (send_packet m1 w2 now packet packet_size tc_arg))))"
    for w2 now packet packet_size
    using 1 kb_send_packet by (rule kb_trans)
  show ?thesis
    unfolding mud_send_def Let_def case_prod_beta m1_def [symmetric]
    using 1 2 by simp
qed

lemma backup_kept_run: "backup_kept (fst s) (fst (run lib cs s))"
proof (induction cs arbitrary: s)
  case Nil
  then show ?case by simp
next
  case (Cons c cs)
  show ?case
  proof (cases c)
    case (Call_recv rx data data_size)
    have "backup_kept (fst s) (fst (snd (snd (mud_recv lib (fst s) (snd s) rx data data_size))))"
      by (rule backup_kept_mud_recv)
    then show ?thesis
      unfolding Call_recv run.simps using Cons.IH by (rule backup_kept_trans)
  next
    case (Call_send data tc_arg)
    have "backup_kept (fst s) (fst (snd (snd (mud_send lib (fst s) (snd s) data tc_arg))))"
      by (rule backup_kept_same) (rule kb_mud_send)
    then show ?thesis
      unfolding Call_send run.simps using Cons.IH by (rule backup_kept_trans)
  qed
qed

lemma backup_kept_nth:
  assumes "backup_kept m m'" "i < length (paths m)"
  shows "i + (length (paths m') - length (paths m)) < length (paths m')"
    and "keeps_backup (paths m ! i) (paths m' ! (i + (length (paths m') - length (paths m))))"
proof -
  let ?d = "length (paths m') - length (paths m)"
  have l: "length (paths m) \<le> length (paths m')"
    and a: "list_all2 keeps_backup (paths m) (drop ?d (paths m'))"
    using assms(1) by (simp_all add: backup_kept_def)
  show "i + ?d < length (paths m')" using l assms(2) by simp
  have "keeps_backup (paths m ! i) (drop ?d (paths m') ! i)"
    using a assms(2) by (rule list_all2_nthD)
  moreover have "drop ?d (paths m') ! i = paths m' ! (i + ?d)"
    using l assms(2) by (simp add: add.commute)
  ultimately show "keeps_backup (paths m ! i) (paths m' ! (i + ?d))" by simp
qed

lemma backup_path_skipped:
  assumes "bak_local (paths m ! k) \<noteq> 0"
  shows "recv_pong lib m w k now = (m, w)"
    and "send_select now frame frame_size tc_arg k (m, w, path_min, limit_min)
           = (m, w, path_min, limit_min)"
  using assms by (simp_all add: recv_pong_def send_select_def Let_def)

section \<open>C9: a backup announcement marks the receiving path as backup\<close>

text \<open>
  Claim C9. When an authenticated backup announcement (29 bytes) arrives in tolerance
  on the path at position \<open>i\<close> (found or created by \<open>mud_path\<close>), \<open>mud_recv\<close> leaves
  that path with \<open>bak.local = 1\<close> and with the payload byte in \<open>bak.remote\<close>. After
  any further sequence \<open>calls\<close> of \<open>mud_recv\<close> and \<open>mud_send\<close> the same path (same
  addresses, moved down the list by the paths created since) still has
  \<open>bak.local = 1\<close>, and it is treated as a backup path: the pong step of a receive
  does nothing on it, and the first loop of \<open>mud_send\<close> skips it. (\<open>mud_peer\<close> is the
  one entry point that writes \<open>bak.local\<close> otherwise; it is not among the calls.)
\<close>

theorem bakx_sets_bak_local:
  assumes "length packet = MUD_BAKX_SIZE"
      and "mud_read48 packet = 0"
      and "mud_abs_diff (fst (mud_now w)) (mud_read48 (drop MUD_U48_SIZE packet))
             < time_tolerance m"
      and "\<not> rejected (mud_decrypt_opt lib (key_private m)
               \<lparr>src = drop (length packet - MUD_MAC_SIZE) packet,
                ad = take (length packet - MUD_MAC_SIZE) packet, npub = replicate 16 0\<rparr>)"
      and "mud_localaddr cmsgs (sa_family (mud_unmapv4 from)) = Some la"
      and "mud_path m (snd (mud_now w)) la (mud_unmapv4 from) True = (Some i, m0)"
      and "mud_recv lib m w (Recv_msg packet from cmsgs) data data_size = (ret, data', m', w')"
  shows "i < length (paths m')
         \<and> bak_local (paths m' ! i) = 1
         \<and> bak_remote (paths m' ! i) = ucast (packet ! 12)
         \<and> (let m'' = fst (run lib calls (m', w'));
                 k = i + (length (paths m'') - length (paths m'))
             in k < length (paths m'')
                \<and> local_addr (paths m'' ! k) = local_addr (paths m' ! i)
                \<and> addr (paths m'' ! k) = addr (paths m' ! i)
                \<and> bak_local (paths m'' ! k) = 1
                \<and> recv_pong lib m'' w'' k now' = (m'', w'')
                \<and> send_select now' frame frame_size tc_arg k (m'', w'', path_min, limit_min)
                    = (m'', w'', path_min, limit_min))"
proof -
  have len: "MUD_PACKET_SIZEOF MUD_U48_SIZE \<le> length packet"
    using assms(1) by (simp add: mud_sizes)
  have i: "i < length (paths m0)" using assms(6) by (rule mud_path_lt)
  define t where "t = fst (mud_now w)"
  define w1 where "w1 = snd (mud_now w)"
  define st where "st = mud_read48 (drop MUD_U48_SIZE packet)"
  define m1 where "m1 = upd_path i (recv_timing t st) m0"
  define m3 where "m3 = upd_path i (\<lambda>p. p\<lparr>recv_time := t\<rparr>) (fst (recv_pong lib m1 w1 i t))"
  have "mud_recv lib m w (Recv_msg packet from cmsgs) data data_size =
      recv_path lib m0 w1 i t st True packet data data_size"
    unfolding t_def w1_def st_def by (rule mud_recv_ctrl_reaches_path [OF len assms(2-6)])
  then have "recv_ctrl lib m3 (snd (recv_pong lib m1 w1 i t)) i t st packet = (m', w')"
    using assms(7) by (simp add: recv_path_ctrl m3_def m1_def)
  then have m': "m' = fst (recv_ctrl lib m3 (snd (recv_pong lib m1 w1 i t)) i t st packet)"
    by simp
  have i3: "i < length (paths m3)" using i by (simp add: m3_def m1_def)
  have l: "i < length (paths m')"
    using i3 by (simp add: m' recv_ctrl_bakx(3) [OF assms(1) i3])
  have b: "bak_local (paths m' ! i) = 1"
    unfolding m' by (rule recv_ctrl_bakx(1) [OF assms(1) i3])
  have r: "bak_remote (paths m' ! i) = ucast (packet ! 12)"
    unfolding m' using recv_ctrl_bakx(2) [OF assms(1) i3] by (simp add: mud_sizes)
  define m'' where "m'' = fst (run lib calls (m', w'))"
  define k where "k = i + (length (paths m'') - length (paths m'))"
  have kept: "backup_kept m' m''"
    unfolding m''_def using backup_kept_run [of "(m', w')" lib calls] by simp
  have k: "k < length (paths m'')"
    unfolding k_def using kept l by (rule backup_kept_nth(1))
  have "keeps_backup (paths m' ! i) (paths m'' ! k)"
    unfolding k_def using kept l by (rule backup_kept_nth(2))
  then have same: "local_addr (paths m'' ! k) = local_addr (paths m' ! i)"
      "addr (paths m'' ! k) = addr (paths m' ! i)" and b'': "bak_local (paths m'' ! k) = 1"
    using b by (auto simp: keeps_backup_def)
  have nz: "bak_local (paths m'' ! k) \<noteq> 0" using b'' by simp
  have "recv_pong lib m'' w'' k now' = (m'', w'')"
      "send_select now' frame frame_size tc_arg k (m'', w'', path_min, limit_min)
         = (m'', w'', path_min, limit_min)"
    by (rule backup_path_skipped [OF nz])+
  then show ?thesis
    using l b r k same b'' unfolding Let_def m''_def [symmetric] k_def [symmetric] by simp
qed

theorem bakx_sets_bak_local_witness:
  "length bakx_packet = MUD_BAKX_SIZE
   \<and> mud_read48 bakx_packet = 0
   \<and> mud_abs_diff (fst (mud_now (snd engine0))) (mud_read48 (drop MUD_U48_SIZE bakx_packet))
        < time_tolerance (fst engine0)
   \<and> \<not> rejected (mud_decrypt_opt toy_sodium (key_private (fst engine0))
          \<lparr>src = drop (length bakx_packet - MUD_MAC_SIZE) bakx_packet,
           ad = take (length bakx_packet - MUD_MAC_SIZE) bakx_packet,
           npub = replicate 16 0\<rparr>)
   \<and> mud_localaddr [Pktinfo4 0x0A000001] (sa_family (mud_unmapv4 (Sin 5000 0x0A000002)))
        = Some (IPv4 0x0A000001)
   \<and> mud_path (fst engine0) (snd (mud_now (snd engine0))) (IPv4 0x0A000001)
        (mud_unmapv4 (Sin 5000 0x0A000002)) True = (Some 0, fst engine0)
   \<and> bak_local (paths (fst engine0) ! 0) = 0
   \<and> bak_local (paths (fst (snd (snd (mud_recv toy_sodium (fst engine0) (snd engine0)
          (Recv_msg bakx_packet (Sin 5000 0x0A000002) [Pktinfo4 0x0A000001]) [] 0)))) ! 0) = 1
   \<and> bak_remote (paths (fst (snd (snd (mud_recv toy_sodium (fst engine0) (snd engine0)
          (Recv_msg bakx_packet (Sin 5000 0x0A000002) [Pktinfo4 0x0A000001]) [] 0)))) ! 0) = 1
   \<and> bak_local (paths (fst (run toy_sodium [Call_send [1, 2, 3] 0]
          (snd (snd (mud_recv toy_sodium (fst engine0) (snd engine0)
             (Recv_msg bakx_packet (Sin 5000 0x0A000002) [Pktinfo4 0x0A000001]) [] 0))))) ! 0)
        = 1"
proof -
  have h1: "length bakx_packet = MUD_BAKX_SIZE" by code_simp
  have h2: "mud_read48 bakx_packet = 0" by code_simp
  have h3: "mud_abs_diff (fst (mud_now (snd engine0)))
              (mud_read48 (drop MUD_U48_SIZE bakx_packet)) < time_tolerance (fst engine0)"
    by code_simp
  have h4: "\<not> rejected (mud_decrypt_opt toy_sodium (key_private (fst engine0))
          \<lparr>src = drop (length bakx_packet - MUD_MAC_SIZE) bakx_packet,
           ad = take (length bakx_packet - MUD_MAC_SIZE) bakx_packet,
           npub = replicate 16 0\<rparr>)" by code_simp
  have h5: "mud_localaddr [Pktinfo4 0x0A000001] (sa_family (mud_unmapv4 (Sin 5000 0x0A000002)))
              = Some (IPv4 0x0A000001)" by code_simp
  have h6: "mud_path (fst engine0) (snd (mud_now (snd engine0))) (IPv4 0x0A000001)
              (mud_unmapv4 (Sin 5000 0x0A000002)) True = (Some 0, fst engine0)" by code_simp
  have h7: "bak_local (paths (fst engine0) ! 0) = 0" by code_simp
  have h8: "bakx_packet ! 12 = 1" by code_simp
  obtain r d m' w' where
    r: "mud_recv toy_sodium (fst engine0) (snd engine0)
          (Recv_msg bakx_packet (Sin 5000 0x0A000002) [Pktinfo4 0x0A000001]) [] 0
        = (r, d, m', w')"
    by (metis prod_cases4)
  define m'' where "m'' = fst (run toy_sodium [Call_send [1, 2, 3] 0] (m', w'))"
  have "list_all2 keeps_backup (paths m') (paths m'')"
    unfolding m''_def using kb_mud_send [of m' toy_sodium w' "[1, 2, 3]" 0] by simp
  then have len: "length (paths m'') = length (paths m')" by (simp add: list_all2_lengthD)
  from bakx_sets_bak_local [OF h1 h2 h3 h4 h5 h6 r,
      of "[Call_send [1, 2, 3] 0]" world0 0 "[]" 0 0 None INT64_MAX]
  have "bak_local (paths m' ! 0) = 1" "bak_remote (paths m' ! 0) = 1"
       "bak_local (paths m'' ! 0) = 1"
    unfolding Let_def m''_def [symmetric] len by (simp_all add: h8)
  then show ?thesis using h1 h2 h3 h4 h5 h6 h7 by (simp add: r m''_def)
qed

section \<open>Admitted datagrams\<close>

lemma admitted_mud_recv:
  assumes "admitted lib m i (fst (mud_now w)) rx"
  shows "\<exists>packet st ctl.
           mud_recv lib m w rx data data_size
             = recv_path lib m (snd (mud_now w)) i (fst (mud_now w)) st ctl packet data data_size"
proof (cases rx)
  case Recv_error
  then show ?thesis using assms by (simp add: admitted_def)
next
  case (Recv_msg packet sender cmsgs)
  obtain la where la: "mud_localaddr cmsgs (sa_family (mud_unmapv4 sender)) = Some la"
      and look: "path_lookup la (mud_unmapv4 sender) (paths m) = Some i"
    using assms unfolding Recv_msg admitted_def Let_def
    by (auto split: option.splits)
  have len: "MUD_PACKET_MIN_SIZE < length packet"
    using assms unfolding Recv_msg admitted_def Let_def by simp
  show ?thesis
  proof (cases "mud_read48 packet = 0")
    case True
    have 1: "MUD_PACKET_SIZEOF MUD_U48_SIZE \<le> length packet"
      and 2: "mud_abs_diff (fst (mud_now w)) (mud_read48 (drop MUD_U48_SIZE packet))
                < time_tolerance m"
      and 3: "\<not> rejected (mud_decrypt_opt lib (key_private m)
               \<lparr>src = drop (length packet - MUD_MAC_SIZE) packet,
                ad = take (length packet - MUD_MAC_SIZE) packet, npub = replicate 16 0\<rparr>)"
      using assms True unfolding Recv_msg admitted_def Let_def by simp_all
    have 4: "mud_path m (snd (mud_now w)) la (mud_unmapv4 sender) True = (Some i, m)"
      using la look by (rule mud_path_found)
    show ?thesis
      unfolding Recv_msg
      using mud_recv_ctrl_reaches_path [OF 1 True 2 3 la 4, of data data_size] by blast
  next
    case False
    have 2: "mud_abs_diff (fst (mud_now w)) (mud_read48 packet) < time_tolerance m"
      using assms False unfolding Recv_msg admitted_def Let_def by simp
    show ?thesis
      unfolding Recv_msg
      using mud_recv_data_reaches_path [OF len False 2 la look, of lib data data_size] by blast
  qed
qed

text \<open>The clock under the receive path.\<close>

lemma same_clock_refl [simp]: "same_clock w w"
  by (simp add: same_clock_def)

lemma same_clock_mud_ctrl_path [simp]:
  "same_clock w (snd (mud_ctrl_path lib m w msg i now))"
  by (simp add: mud_ctrl_path_eq same_clock_def)

lemma same_clock_recv_pong [simp]: "same_clock w (snd (recv_pong lib m w i now))"
  by (simp add: recv_pong_def Let_def case_prod_beta mud_ctrl_path_eq same_clock_def)

lemma same_clock_mud_recv_keyx [simp]:
  "same_clock w (snd (mud_recv_keyx lib m w i now data))"
  by (simp add: mud_recv_keyx_def Let_def mud_ctrl_path_eq same_clock_def split: option.splits)

lemma same_clock_recv_ctrl [simp]:
  "same_clock w (snd (recv_ctrl lib m w i now st packet))"
  by (simp add: recv_ctrl_def Let_def mud_ctrl_path_eq) (simp add: same_clock_def)

lemma same_clock_mud_decrypt [simp]:
  "same_clock w (snd (snd (snd (mud_decrypt lib m w data data_size packet))))"
  by (simp add: mud_decrypt_def Let_def mud_keyx_init_def randombytes_buf_def case_prod_beta
      same_clock_def)

lemma same_clock_trans: "same_clock a b \<Longrightarrow> same_clock b c \<Longrightarrow> same_clock a c"
  by (simp add: same_clock_def)

lemma same_clock_recv_path:
  "same_clock w1 (snd (snd (snd (recv_path lib m0 w1 i now st ctl packet data data_size))))"
proof -
  define w2 where "w2 = snd (recv_pong lib (upd_path i (recv_timing now st) m0) w1 i now)"
  have 1: "same_clock w1 w2" by (simp add: w2_def)
  have 2: "same_clock w1 (snd (recv_ctrl lib m3 w2 i now st packet))" for m3
    using 1 same_clock_recv_ctrl by (rule same_clock_trans)
  have 3: "same_clock w1 (snd (snd (snd (mud_decrypt lib m3 w2 data data_size packet))))" for m3
    using 1 same_clock_mud_decrypt by (rule same_clock_trans)
  show ?thesis
    unfolding recv_path_def Let_def case_prod_beta w2_def [symmetric]
    using 2 3 by simp
qed

text \<open>What the checks read of the engine.\<close>

lemma same_checks_refl [simp]: "same_checks m m"
  by (simp add: same_checks_def)

lemma same_checks_trans: "same_checks a b \<Longrightarrow> same_checks b c \<Longrightarrow> same_checks a c"
  by (simp add: same_checks_def)

lemma same_checks_upd_path [simp]: "same_checks m (upd_path i f m)"
  by (simp add: same_checks_def upd_path_def)

lemma same_checks_mud_ctrl_path [simp]:
  "same_checks m (fst (mud_ctrl_path lib m w msg i now))"
  by (simp add: mud_ctrl_path_eq)

lemma same_checks_recv_pong [simp]: "same_checks m (fst (recv_pong lib m w i now))"
proof -
  have "same_checks m (upd_path i f (fst (mud_ctrl_path lib m w mud_pong i now)))" for f
    using same_checks_mud_ctrl_path same_checks_upd_path by (rule same_checks_trans)
  then show ?thesis by (simp add: recv_pong_def Let_def case_prod_beta)
qed

lemma same_checks_mud_recv_keyx [simp]:
  "same_checks m (fst (mud_recv_keyx lib m w i now data))"
  by (simp add: mud_recv_keyx_def Let_def mud_ctrl_path_eq upd_path_def same_checks_def
      split: option.splits)

lemma same_checks_recv_ctrl [simp]:
  "same_checks m (fst (recv_ctrl lib m w i now st packet))"
proof -
  have 1: "same_checks m (fst (mud_ctrl_path lib (m\<lparr>mtu_remote := x\<rparr>) w msg i now))" for x msg
    by (simp add: mud_ctrl_path_eq upd_path_def same_checks_def)
  have 2: "same_checks m (m\<lparr>mtu_remote := x\<rparr>)" for x
    by (simp add: same_checks_def)
  have 3: "same_checks m (fst (mud_ctrl_path lib (upd_path i f m) w msg i now))" for f msg
    using same_checks_upd_path same_checks_mud_ctrl_path by (rule same_checks_trans)
  show ?thesis
    unfolding recv_ctrl_def Let_def
    using 1 2 3 by simp
qed

lemma same_checks_mud_decrypt [simp]:
  "same_checks m (fst (snd (snd (mud_decrypt lib m w data data_size packet))))"
  by (simp add: mud_decrypt_def Let_def mud_keyx_init_def randombytes_buf_def case_prod_beta
      same_checks_def)

lemma same_checks_recv_path:
  "same_checks m0 (fst (snd (snd (recv_path lib m0 w1 i now st ctl packet data data_size))))"
proof -
  define m1 where "m1 = upd_path i (recv_timing now st) m0"
  define m2 where "m2 = fst (recv_pong lib m1 w1 i now)"
  define m3 where "m3 = upd_path i (\<lambda>p. p\<lparr>recv_time := now\<rparr>) m2"
  have 1: "same_checks m0 m1" by (simp add: m1_def)
  have 2: "same_checks m0 m2"
    unfolding m2_def using 1 same_checks_recv_pong by (rule same_checks_trans)
  have 3: "same_checks m0 m3"
    unfolding m3_def using 2 same_checks_upd_path by (rule same_checks_trans)
  have 4: "same_checks m0 (fst (recv_ctrl lib m3 w2 i now st packet))" for w2
    using 3 same_checks_recv_ctrl by (rule same_checks_trans)
  have 5: "same_checks m0 (fst (snd (snd (mud_decrypt lib m3 w2 data data_size packet))))" for w2
    using 3 same_checks_mud_decrypt by (rule same_checks_trans)
  have 6: "same_checks m0 ((fst (snd (snd (mud_decrypt lib m3 w2 data data_size packet))))
             \<lparr>bad_key := 1\<rparr>)" for w2
    using 5 [of w2] by (simp add: same_checks_def)
  show ?thesis
    using 4 5 6 by (simp add: recv_path_state Let_def m3_def m2_def m1_def)
qed


lemma path_lookup_kb:
  "list_all2 keeps_backup ps qs \<Longrightarrow> path_lookup la a qs = path_lookup la a ps"
  by (induction rule: list_all2_induct) (simp_all add: keeps_backup_def)

lemma admitted_cong:
  assumes "same_checks m m'" "list_all2 keeps_backup (paths m) (paths m')"
  shows "admitted lib m' i now rx = admitted lib m i now rx"
proof (cases rx)
  case Recv_error
  then show ?thesis by (simp add: admitted_def)
next
  case (Recv_msg packet sender cmsgs)
  have h: "path_lookup la a (paths m') = path_lookup la a (paths m)" for la a
    using assms(2) by (rule path_lookup_kb)
  show ?thesis
    using assms(1) unfolding Recv_msg admitted_def same_checks_def
    by (simp add: h cong: option.case_cong)
qed

lemma reading_eq: "reading w k = clock w (clock_reads w + k) AND (push_bit 48 1 - 1)"
  by (simp add: reading_def mud_now_def)

lemma reading_0: "fst (mud_now w) = reading w 0"
  by (simp add: reading_eq mud_now_def)

lemma reading_after:
  assumes "same_clock (snd (mud_now w)) w'"
  shows "reading w' k = reading w (Suc k)"
  using assms by (simp add: reading_eq same_clock_def mud_now_def)

text \<open>One arrival.\<close>

lemma rdt_recv_timing:
  "rdt ((recv_timing now st p)\<lparr>recv_time := now\<rparr>) =
     (if rdt p \<noteq> 0 then ((now - recv_time p) + 7 * rdt p) div 8
      else if recv_time p \<noteq> 0 then now - recv_time p else rdt p)"
  by (simp add: recv_timing_def Let_def)

lemma arrival_step:
  assumes i: "i < length (paths m)" and adm: "admitted lib m i (reading w 0) (fst x)"
  defines "s' \<equiv> snd (snd (mud_recv lib m w (fst x) (fst (snd x)) (snd (snd x))))"
  shows "i < length (paths (fst s'))"
    and "rdt (paths (fst s') ! i) =
           (if rdt (paths m ! i) \<noteq> 0
            then ((reading w 0 - recv_time (paths m ! i)) + 7 * rdt (paths m ! i)) div 8
            else if recv_time (paths m ! i) \<noteq> 0 then reading w 0 - recv_time (paths m ! i)
            else rdt (paths m ! i))"
    and "recv_time (paths (fst s') ! i) = reading w 0"
    and "same_checks m (fst s')"
    and "list_all2 keeps_backup (paths m) (paths (fst s'))"
    and "reading (snd s') k = reading w (Suc k)"
proof -
  have adm': "admitted lib m i (fst (mud_now w)) (fst x)"
    using adm by (simp add: reading_0)
  from admitted_mud_recv [OF adm', of "fst (snd x)" "snd (snd x)"]
  obtain packet st ctl where
    r0: "mud_recv lib m w (fst x) (fst (snd x)) (snd (snd x))
          = recv_path lib m (snd (mud_now w)) i (fst (mud_now w)) st ctl packet
              (fst (snd x)) (snd (snd x))"
    by blast
  have r: "mud_recv lib m w (fst x) (fst (snd x)) (snd (snd x))
          = recv_path lib m (snd (mud_now w)) i (reading w 0) st ctl packet
              (fst (snd x)) (snd (snd x))"
    using r0 by (simp add: reading_0)
  have t: "timing (paths (fst s') ! i)
             = timing ((recv_timing (reading w 0) st (paths m ! i))\<lparr>recv_time := reading w 0\<rparr>)"
    unfolding s'_def r using i by (rule timing_recv_path)
  show "i < length (paths (fst s'))"
    unfolding s'_def r using i by simp
  have "rdt (paths (fst s') ! i)
          = rdt ((recv_timing (reading w 0) st (paths m ! i))\<lparr>recv_time := reading w 0\<rparr>)"
    using t by (simp add: timing_def)
  then show "rdt (paths (fst s') ! i) =
           (if rdt (paths m ! i) \<noteq> 0
            then ((reading w 0 - recv_time (paths m ! i)) + 7 * rdt (paths m ! i)) div 8
            else if recv_time (paths m ! i) \<noteq> 0 then reading w 0 - recv_time (paths m ! i)
            else rdt (paths m ! i))"
    by (simp only: rdt_recv_timing)
  show "recv_time (paths (fst s') ! i) = reading w 0"
    using t by (simp add: timing_def)
  show "same_checks m (fst s')"
    unfolding s'_def r by (rule same_checks_recv_path)
  show "list_all2 keeps_backup (paths m) (paths (fst s'))"
    unfolding s'_def r by (rule kb_recv_path)
  have "same_clock (snd (mud_now w)) (snd s')"
    unfolding s'_def r by (rule same_clock_recv_path)
  then show "reading (snd s') k = reading w (Suc k)" by (rule reading_after)
qed

lemma arrivals_Cons:
  assumes "arrivals lib i c0 delta (x # xs) s"
  defines "s' \<equiv> snd (snd (mud_recv lib (fst s) (snd s) (fst x) (fst (snd x)) (snd (snd x))))"
  shows "arrivals lib i (c0 + delta) delta xs s'"
    and "rdt (paths (fst s') ! i) =
           (if rdt (paths (fst s) ! i) \<noteq> 0
            then ((c0 - recv_time (paths (fst s) ! i)) + 7 * rdt (paths (fst s) ! i)) div 8
            else if recv_time (paths (fst s) ! i) \<noteq> 0 then c0 - recv_time (paths (fst s) ! i)
            else rdt (paths (fst s) ! i))"
    and "recv_time (paths (fst s') ! i) = c0"
proof -
  have i: "i < length (paths (fst s))" using assms(1) by (simp add: arrivals_def)
  have all: "\<And>k. k < Suc (length xs) \<Longrightarrow>
      reading (snd s) k = c0 + of_nat k * delta
      \<and> admitted lib (fst s) i (c0 + of_nat k * delta) (fst ((x # xs) ! k))"
    using assms(1) by (simp add: arrivals_def)
  have r0: "reading (snd s) 0 = c0" using all [of 0] by simp
  have adm: "admitted lib (fst s) i (reading (snd s) 0) (fst x)"
    using all [of 0] by simp
  note st = arrival_step [OF i adm, folded s'_def]
  show "rdt (paths (fst s') ! i) =
           (if rdt (paths (fst s) ! i) \<noteq> 0
            then ((c0 - recv_time (paths (fst s) ! i)) + 7 * rdt (paths (fst s) ! i)) div 8
            else if recv_time (paths (fst s) ! i) \<noteq> 0 then c0 - recv_time (paths (fst s) ! i)
            else rdt (paths (fst s) ! i))"
    using st(2) unfolding r0 .
  show "recv_time (paths (fst s') ! i) = c0"
    using st(3) unfolding r0 .
  have "reading (snd s') k = (c0 + delta) + of_nat k * delta
        \<and> admitted lib (fst s') i ((c0 + delta) + of_nat k * delta) (fst (xs ! k))"
    if k: "k < length xs" for k
  proof -
    have e: "c0 + of_nat (Suc k) * delta = (c0 + delta) + of_nat k * delta"
      by (simp add: algebra_simps)
    have "reading (snd s') k = c0 + of_nat (Suc k) * delta"
      using st(6) [of k] all [of "Suc k"] k by simp
    moreover have "admitted lib (fst s) i (c0 + of_nat (Suc k) * delta) (fst (xs ! k))"
      using all [of "Suc k"] k by simp
    then have "admitted lib (fst s') i (c0 + of_nat (Suc k) * delta) (fst (xs ! k))"
      by (simp only: admitted_cong [OF st(4) st(5)])
    ultimately show ?thesis unfolding e by simp
  qed
  then show "arrivals lib i (c0 + delta) delta xs s'"
    using st(1) by (simp add: arrivals_def)
qed


section \<open>The integer moving average\<close>

lemma ewma_unat:
  fixes d x :: u64
  assumes "d < 2 ^ 48" "x < 2 ^ 48"
  shows "unat ((d + 7 * x) div 8) = (unat d + 7 * unat x) div 8"
proof -
  have d: "unat d < 2 ^ 48" using assms(1) by (simp add: word_less_nat_alt)
  have x: "unat x < 2 ^ 48" using assms(2) by (simp add: word_less_nat_alt)
  have 1: "unat (7 * x) = 7 * unat x"
    using x by (subst unat_mult_lem [THEN iffD1]) simp_all
  have 2: "unat (d + 7 * x) = unat d + unat (7 * x)"
    using d x 1 by (subst unat_add_lem [THEN iffD1]) simp_all
  show ?thesis by (simp add: unat_div 1 2)
qed

lemma ewma_less:
  fixes d x :: u64
  assumes "d < 2 ^ 48" "x < 2 ^ 48"
  shows "(d + 7 * x) div 8 < 2 ^ 48"
proof -
  have d: "unat d < 2 ^ 48" using assms(1) by (simp add: word_less_nat_alt)
  have x: "unat x < 2 ^ 48" using assms(2) by (simp add: word_less_nat_alt)
  have "(unat d + 7 * unat x) div 8 < 2 ^ 48" using d x by simp
  then show ?thesis
    by (simp add: word_less_nat_alt ewma_unat [OF assms])
qed

lemma ewma_nonzero:
  fixes d x :: u64
  assumes "d < 2 ^ 48" "x < 2 ^ 48" "d \<noteq> 0" "x \<noteq> 0"
  shows "(d + 7 * x) div 8 \<noteq> 0"
proof -
  have "unat d \<noteq> 0" "unat x \<noteq> 0" using assms(3,4) by (simp_all add: unat_eq_0)
  then have "(unat d + 7 * unat x) div 8 \<noteq> 0" by simp
  moreover have "unat ((d + 7 * x) div 8) = (unat d + 7 * unat x) div 8"
    by (rule ewma_unat [OF assms(1,2)])
  ultimately have "unat ((d + 7 * x) div 8) \<noteq> 0" by presburger
  then show ?thesis by (simp add: unat_eq_0)
qed

lemma ewma_iter_unat:
  fixes d x :: u64
  assumes "d < 2 ^ 48" "x < 2 ^ 48"
  shows "((\<lambda>x. (d + 7 * x) div 8) ^^ n) x < 2 ^ 48
         \<and> unat (((\<lambda>x. (d + 7 * x) div 8) ^^ n) x)
             = ((\<lambda>y. (unat d + 7 * y) div 8) ^^ n) (unat x)"
proof (induction n)
  case 0
  then show ?case using assms(2) by simp
next
  case (Suc n)
  define z where "z = ((\<lambda>x. (d + 7 * x) div 8) ^^ n) x"
  have z: "z < 2 ^ 48"
    and u: "unat z = ((\<lambda>y. (unat d + 7 * y) div 8) ^^ n) (unat x)"
    using Suc.IH by (simp_all add: z_def)
  have 1: "((\<lambda>x. (d + 7 * x) div 8) ^^ Suc n) x = (d + 7 * z) div 8"
    by (simp add: z_def)
  have 2: "((\<lambda>y. (unat d + 7 * y) div 8) ^^ Suc n) (unat x) = (unat d + 7 * unat z) div 8"
    by (simp add: u)
  show ?case
    unfolding 1 2 using ewma_less [OF assms(1) z] ewma_unat [OF assms(1) z] by simp
qed

lemma ewma_fixed_iter:
  fixes d :: u64
  assumes "d < 2 ^ 48"
  shows "((\<lambda>x. (d + 7 * x) div 8) ^^ n) d = d"
proof (induction n)
  case 0
  then show ?case by simp
next
  case (Suc n)
  have "unat ((d + 7 * d) div 8) = (unat d + 7 * unat d) div 8"
    by (rule ewma_unat [OF assms assms])
  also have "\<dots> = unat d" by simp
  finally have "(d + 7 * d) div 8 = d" by (rule word_unat_eq_iff [THEN iffD2])
  then show ?case using Suc.IH by simp
qed

lemma iter_above:
  fixes d y :: nat
  assumes "d \<le> y"
  shows "d \<le> ((\<lambda>y. (d + 7 * y) div 8) ^^ n) y
         \<and> 8 ^ n * (((\<lambda>y. (d + 7 * y) div 8) ^^ n) y - d) \<le> 7 ^ n * (y - d)"
proof (induction n)
  case 0
  then show ?case using assms by simp
next
  case (Suc n)
  define z where "z = ((\<lambda>y. (d + 7 * y) div 8) ^^ n) y"
  define z' where "z' = (d + 7 * z) div 8"
  have z: "d \<le> z" and b: "8 ^ n * (z - d) \<le> 7 ^ n * (y - d)"
    using Suc.IH by (simp_all add: z_def)
  have 1: "((\<lambda>y. (d + 7 * y) div 8) ^^ Suc n) y = z'" by (simp add: z_def z'_def)
  have z': "d \<le> z'" using z unfolding z'_def by simp
  have "8 * z' \<le> d + 7 * z" unfolding z'_def by simp
  then have s: "8 * (z' - d) \<le> 7 * (z - d)" using z z' by simp
  have "8 ^ Suc n * (z' - d) = 8 ^ n * (8 * (z' - d))" by simp
  also have "\<dots> \<le> 8 ^ n * (7 * (z - d))" using s by (rule mult_le_mono2)
  also have "\<dots> = 7 * (8 ^ n * (z - d))" by simp
  also have "\<dots> \<le> 7 * (7 ^ n * (y - d))" using b by (rule mult_le_mono2)
  also have "\<dots> = 7 ^ Suc n * (y - d)" by simp
  finally show ?case unfolding 1 using z' by simp
qed

lemma iter_below:
  fixes d y :: nat
  assumes "y \<le> d"
  shows "((\<lambda>y. (d + 7 * y) div 8) ^^ n) y \<le> d
         \<and> 8 ^ n * (d - ((\<lambda>y. (d + 7 * y) div 8) ^^ n) y) + 7 * 7 ^ n
             \<le> 7 ^ n * (d - y) + 7 * 8 ^ n"
proof (induction n)
  case 0
  then show ?case using assms by simp
next
  case (Suc n)
  define z where "z = ((\<lambda>y. (d + 7 * y) div 8) ^^ n) y"
  define z' where "z' = (d + 7 * z) div 8"
  define A where "A = 8 ^ n * (d - z)"
  define B where "B = 7 ^ n * (d - y)"
  define p where "p = (7 :: nat) ^ n"
  define q where "q = (8 :: nat) ^ n"
  have z: "z \<le> d" and b: "A + 7 * p \<le> B + 7 * q"
    using Suc.IH by (simp_all add: z_def A_def B_def p_def q_def)
  have 1: "((\<lambda>y. (d + 7 * y) div 8) ^^ Suc n) y = z'" by (simp add: z_def z'_def)
  have z': "z' \<le> d" using z unfolding z'_def by simp
  have "d + 7 * z < 8 * z' + 8" unfolding z'_def
    using dividend_less_times_div [of 8 "d + 7 * z"] by simp
  then have s: "8 * (d - z') \<le> 7 * (d - z) + 7" using z z' by simp
  have "8 ^ Suc n * (d - z') = q * (8 * (d - z'))" by (simp add: q_def)
  also have "\<dots> \<le> q * (7 * (d - z) + 7)" using s by (rule mult_le_mono2)
  also have "\<dots> = 7 * A + 7 * q" by (simp add: A_def q_def algebra_simps)
  finally have t: "8 ^ Suc n * (d - z') \<le> 7 * A + 7 * q" .
  have e1: "7 * 7 ^ Suc n = 49 * p" by (simp add: p_def)
  have e2: "7 ^ Suc n * (d - y) = 7 * B" by (simp add: B_def)
  have e3: "7 * 8 ^ Suc n = 56 * q" by (simp add: q_def)
  have "8 ^ Suc n * (d - z') + 7 * 7 ^ Suc n \<le> 7 ^ Suc n * (d - y) + 7 * 8 ^ Suc n"
    unfolding e1 e2 e3 using t b by linarith
  then show ?case unfolding 1 using z' by simp
qed

lemma iter_one_percent:
  fixes d y :: nat
  assumes "d \<le> y" "7 * (y - d) \<le> d" "20 \<le> n"
  shows "100 * (((\<lambda>y. (d + 7 * y) div 8) ^^ n) y - d) \<le> d"
proof -
  define e where "e = ((\<lambda>y. (d + 7 * y) div 8) ^^ n) y - d"
  obtain k where n: "n = 20 + k" using assms(3) by (metis le_Suc_ex)
  have b: "8 ^ n * e \<le> 7 ^ n * (y - d)"
    using iter_above [OF assms(1), of n] by (simp add: e_def)
  have p: "(7 :: nat) ^ k \<le> 8 ^ k" by (rule power_mono) simp_all
  have "8 ^ k * (8 ^ 20 * e) = 8 ^ n * e" by (simp add: n power_add)
  also have "\<dots> \<le> 7 ^ n * (y - d)" by (rule b)
  also have "\<dots> = 7 ^ k * (7 ^ 20 * (y - d))" by (simp add: n power_add)
  also have "\<dots> \<le> 8 ^ k * (7 ^ 20 * (y - d))" using p by (rule mult_le_mono1)
  finally have "8 ^ 20 * e \<le> 7 ^ 20 * (y - d)" by simp
  then have "100 * (8 ^ 20 * e) \<le> 100 * (7 ^ 20 * (y - d))" by (rule mult_le_mono2)
  also have "\<dots> = (100 * 7 ^ 19) * (7 * (y - d))" by simp
  also have "\<dots> \<le> (100 * 7 ^ 19) * d" using assms(2) by (rule mult_le_mono2)
  also have "\<dots> \<le> 8 ^ 20 * d" by (rule mult_le_mono1) simp
  finally have "8 ^ 20 * (100 * e) \<le> 8 ^ 20 * d" by (simp add: mult.left_commute)
  then show ?thesis unfolding e_def by simp
qed


section \<open>The receive interval over a run of arrivals\<close>

lemma warm_run:
  assumes d: "delta < 2 ^ 48"
  shows "arrivals lib i c0 delta xs s \<Longrightarrow> rdt (paths (fst s) ! i) < 2 ^ 48 \<Longrightarrow>
         c0 - recv_time (paths (fst s) ! i) = delta \<Longrightarrow>
         rdt (paths (fst s) ! i) \<noteq> 0 \<or> delta = 0 \<Longrightarrow>
         rdt (paths (fst (recv_run lib xs s)) ! i)
           = ((\<lambda>x. (delta + 7 * x) div 8) ^^ length xs) (rdt (paths (fst s) ! i))"
proof (induction xs arbitrary: s c0)
  case Nil
  then show ?case by simp
next
  case (Cons x xs)
  define s' where "s' = snd (snd (mud_recv lib (fst s) (snd s) (fst x) (fst (snd x))
                                    (snd (snd x))))"
  define r where "r = rdt (paths (fst s) ! i)"
  note st = arrivals_Cons [OF Cons.prems(1), folded s'_def]
  have r: "r < 2 ^ 48" using Cons.prems(2) by (simp add: r_def)
  have step: "rdt (paths (fst s') ! i) = (delta + 7 * r) div 8"
  proof (cases "r = 0")
    case False
    then show ?thesis using st(2) Cons.prems(3) by (simp add: r_def)
  next
    case True
    then have "delta = 0" using Cons.prems(4) by (simp add: r_def)
    then show ?thesis using st(2) Cons.prems(3) True by (simp add: r_def)
  qed
  have 1: "rdt (paths (fst s') ! i) < 2 ^ 48"
    unfolding step by (rule ewma_less [OF d r])
  have 2: "(c0 + delta) - recv_time (paths (fst s') ! i) = delta"
    unfolding st(3) by simp
  have 3: "rdt (paths (fst s') ! i) \<noteq> 0 \<or> delta = 0"
  proof (cases "delta = 0")
    case True
    then show ?thesis by simp
  next
    case False
    then have "r \<noteq> 0" using Cons.prems(4) by (simp add: r_def)
    then have "(delta + 7 * r) div 8 \<noteq> 0" using ewma_nonzero [OF d r False] by simp
    then show ?thesis unfolding step by simp
  qed
  have "rdt (paths (fst (recv_run lib xs s')) ! i)
          = ((\<lambda>x. (delta + 7 * x) div 8) ^^ length xs) (rdt (paths (fst s') ! i))"
    using st(1) 1 2 3 by (rule Cons.IH)
  also have "\<dots> = ((\<lambda>x. (delta + 7 * x) div 8) ^^ length xs) ((delta + 7 * r) div 8)"
    unfolding step ..
  also have "\<dots> = ((\<lambda>x. (delta + 7 * x) div 8) ^^ Suc (length xs)) r"
    using funpow_swap1 [of "\<lambda>x. (delta + 7 * x) div 8" "length xs" r] by simp
  finally show ?case
    unfolding recv_run.simps s'_def [symmetric] r_def by simp
qed

lemma fresh_run:
  assumes d: "delta < 2 ^ 48"
      and a: "arrivals lib i c0 delta xs s"
      and fresh: "rdt (paths (fst s) ! i) = 0" "recv_time (paths (fst s) ! i) = 0"
      and n: "3 \<le> length xs"
  shows "rdt (paths (fst (recv_run lib xs s)) ! i) = delta"
proof -
  obtain x1 x2 x3 ys where xs: "xs = x1 # x2 # x3 # ys"
    using n by (metis Suc_le_length_iff numeral_3_eq_3)
  define s1 where "s1 = snd (snd (mud_recv lib (fst s) (snd s) (fst x1) (fst (snd x1))
                                    (snd (snd x1))))"
  define s2 where "s2 = snd (snd (mud_recv lib (fst s1) (snd s1) (fst x2) (fst (snd x2))
                                    (snd (snd x2))))"
  define s3 where "s3 = snd (snd (mud_recv lib (fst s2) (snd s2) (fst x3) (fst (snd x3))
                                    (snd (snd x3))))"
  define c1 where "c1 = c0 + delta"
  define c2 where "c2 = c1 + delta"
  define c3 where "c3 = c2 + delta"
  note st1 = arrivals_Cons [OF a [unfolded xs], folded s1_def c1_def]
  note st2 = arrivals_Cons [OF st1(1), folded s2_def c2_def]
  note st3 = arrivals_Cons [OF st2(1), folded s3_def c3_def]
  have run2: "recv_run lib xs s = recv_run lib (x3 # ys) s2"
    unfolding xs recv_run.simps s1_def s2_def ..
  have run3: "recv_run lib xs s = recv_run lib ys s3"
    unfolding run2 recv_run.simps s3_def ..
  have p1: "rdt (paths (fst s1) ! i) = 0" "recv_time (paths (fst s1) ! i) = c0"
    using st1(2,3) fresh by simp_all
  have t2: "recv_time (paths (fst s2) ! i) = c1" by (rule st2(3))
  have t3: "recv_time (paths (fst s3) ! i) = c2" by (rule st3(3))
  have d21: "c2 - c1 = delta" by (simp add: c2_def)
  have d32: "c3 - c2 = delta" by (simp add: c3_def)
  have d10: "c1 - c0 = delta" by (simp add: c1_def)
  show ?thesis
  proof (cases "c0 \<noteq> 0 \<or> delta = 0")
    case True
    have r2: "rdt (paths (fst s2) ! i) = delta"
      using st2(2) p1 True d10 by auto
    have "rdt (paths (fst (recv_run lib (x3 # ys) s2)) ! i)
            = ((\<lambda>x. (delta + 7 * x) div 8) ^^ length (x3 # ys)) (rdt (paths (fst s2) ! i))"
    proof (rule warm_run [OF d st2(1)])
      show "rdt (paths (fst s2) ! i) < 2 ^ 48" unfolding r2 by (rule d)
      show "c2 - recv_time (paths (fst s2) ! i) = delta" unfolding t2 by (rule d21)
      show "rdt (paths (fst s2) ! i) \<noteq> 0 \<or> delta = 0" unfolding r2 by simp
    qed
    then show ?thesis
      unfolding run2 r2 by (simp only: ewma_fixed_iter [OF d])
  next
    case False
    then have c0: "c0 = 0" and dz: "delta \<noteq> 0" by simp_all
    have c1: "c1 = delta" by (simp add: c1_def c0)
    have r2: "rdt (paths (fst s2) ! i) = 0"
      using st2(2) p1 c0 by simp
    have r3: "rdt (paths (fst s3) ! i) = delta"
      using st3(2) r2 t2 c1 dz d21 by simp
    have "rdt (paths (fst (recv_run lib ys s3)) ! i)
            = ((\<lambda>x. (delta + 7 * x) div 8) ^^ length ys) (rdt (paths (fst s3) ! i))"
    proof (rule warm_run [OF d st3(1)])
      show "rdt (paths (fst s3) ! i) < 2 ^ 48" unfolding r3 by (rule d)
      show "c3 - recv_time (paths (fst s3) ! i) = delta" unfolding t3 by (rule d32)
      show "rdt (paths (fst s3) ! i) \<noteq> 0 \<or> delta = 0" unfolding r3 by simp
    qed
    then show ?thesis
      unfolding run3 r3 by (simp only: ewma_fixed_iter [OF d])
  qed
qed

lemma once_run:
  assumes d: "delta < 2 ^ 48"
      and a: "arrivals lib i c0 delta xs s"
      and once: "rdt (paths (fst s) ! i) = 0" "recv_time (paths (fst s) ! i) \<noteq> 0"
                "c0 - recv_time (paths (fst s) ! i) = delta"
      and n: "1 \<le> length xs"
  shows "rdt (paths (fst (recv_run lib xs s)) ! i) = delta"
proof -
  obtain x ys where xs: "xs = x # ys"
    using n by (cases xs) simp_all
  define s1 where "s1 = snd (snd (mud_recv lib (fst s) (snd s) (fst x) (fst (snd x))
                                    (snd (snd x))))"
  define c1 where "c1 = c0 + delta"
  note st = arrivals_Cons [OF a [unfolded xs], folded s1_def c1_def]
  have run: "recv_run lib xs s = recv_run lib ys s1"
    unfolding xs recv_run.simps s1_def ..
  have r1: "rdt (paths (fst s1) ! i) = delta" using st(2) once by simp
  have t1: "recv_time (paths (fst s1) ! i) = c0" by (rule st(3))
  have d10: "c1 - c0 = delta" by (simp add: c1_def)
  have "rdt (paths (fst (recv_run lib ys s1)) ! i)
          = ((\<lambda>x. (delta + 7 * x) div 8) ^^ length ys) (rdt (paths (fst s1) ! i))"
  proof (rule warm_run [OF d st(1)])
    show "rdt (paths (fst s1) ! i) < 2 ^ 48" unfolding r1 by (rule d)
    show "c1 - recv_time (paths (fst s1) ! i) = delta" unfolding t1 by (rule d10)
    show "rdt (paths (fst s1) ! i) \<noteq> 0 \<or> delta = 0" unfolding r1 by simp
  qed
  then show ?thesis
    unfolding run r1 by (simp only: ewma_fixed_iter [OF d])
qed

section \<open>C8: convergence of the receive interval\<close>

text \<open>
  A warm path far from the interval. \<open>engine_warm 1000000\<close> has \<open>rdt = 1000000\<close>;
  twenty pings then arrive 1000 microseconds apart, each admitted. Afterwards \<open>rdt\<close> is
  70136, seventy times the interval.
\<close>

lemma engine_warm_arrivals:
  "arrivals toy_sodium 0 5001001000 1000 (replicate 20 ping_arrival) (engine_warm 1000000)"
  by code_simp

lemma engine_warm_run:
  "rdt (paths (fst (engine_warm 1000000)) ! 0) = 1000000
   \<and> recv_time (paths (fst (engine_warm 1000000)) ! 0) = 5001000000
   \<and> rdt (paths (fst (recv_run toy_sodium (replicate 20 ping_arrival)
                         (engine_warm 1000000))) ! 0) = 70136"
  by code_simp

theorem ewma_convergence_counterexample:
  "arrivals toy_sodium 0 5001001000 1000 (replicate 20 ping_arrival) (engine_warm 1000000)
   \<and> rdt (paths (fst (engine_warm 1000000)) ! 0) = 1000000
   \<and> recv_time (paths (fst (engine_warm 1000000)) ! 0) = 5001000000
   \<and> length (replicate 20 ping_arrival) = 20
   \<and> rdt (paths (fst (recv_run toy_sodium (replicate 20 ping_arrival)
                         (engine_warm 1000000))) ! 0) = 70136
   \<and> \<not> 100 * \<bar>int (unat (70136 :: u64)) - int (unat (1000 :: u64))\<bar>
          \<le> int (unat (1000 :: u64))"
  using engine_warm_arrivals engine_warm_run by simp

text \<open>
  Across the wrap of the 48-bit clock the difference \<open>now - recv_time\<close> is taken on
  64 bits and is not the interval: one ping 1000 microseconds after the last takes
  \<open>rdt\<close> from 1000 to above \<open>2 ^ 61\<close>.
\<close>

lemma ewma_clock_wrap:
  "rdt (paths (fst engine_wrap) ! 0) = 1000
   \<and> recv_time (paths (fst engine_wrap) ! 0) = 281474976710156
   \<and> reading (snd engine_wrap) 0 = 500
   \<and> admitted toy_sodium (fst engine_wrap) 0 500 (fst (ping_at 500))
   \<and> rdt (paths (fst (recv_run toy_sodium [ping_at 500] engine_wrap)) ! 0)
        = 2305807824841606120"
  by code_simp

text \<open>
  Three concrete runs on the path of \<open>engine0\<close>, the clock advancing 1000
  microseconds per reading: twenty pings on the fresh path; twenty pings after two
  that arrived 1142 microseconds apart; two pings after a single one.
\<close>

lemma engine0_arrivals:
  "arrivals toy_sodium 0 5000000000 1000 (replicate 20 ping_arrival)
     (fst engine0, snd engine0)"
  by code_simp

lemma engine0_fresh:
  "rdt (paths (fst engine0) ! 0) = 0" "recv_time (paths (fst engine0) ! 0) = 0"
  by code_simp+

lemma engine_near_arrivals:
  "arrivals toy_sodium 0 5000002142 1000 (replicate 20 ping_arrival)
     (fst (engine_warm 1142), snd (engine_warm 1142))"
  by code_simp

lemma engine_near:
  "rdt (paths (fst (engine_warm 1142)) ! 0) = 1142"
  "5000002142 - recv_time (paths (fst (engine_warm 1142)) ! 0) = 1000"
  by code_simp+

lemma ewma_iterate_near:
  "((\<lambda>x. ((1000 :: u64) + 7 * x) div 8) ^^ 20) 1142 = 1007"
  by code_simp

lemma engine_once_arrivals:
  "arrivals toy_sodium 0 5000001000 1000 [ping_arrival, ping_arrival]
     (fst (recv_run toy_sodium [ping_arrival] engine0),
      snd (recv_run toy_sodium [ping_arrival] engine0))"
  by code_simp

lemma engine_once:
  "rdt (paths (fst (recv_run toy_sodium [ping_arrival] engine0)) ! 0) = 0"
  "recv_time (paths (fst (recv_run toy_sodium [ping_arrival] engine0)) ! 0) = 5000000000"
  by code_simp+

text \<open>
  Claim C8. Datagrams arrive through \<open>mud_recv\<close> on the path at position \<open>i\<close>, one
  per reading of the clock, at a constant interval \<open>delta\<close> below \<open>2 ^ 48\<close>, the
  clock not wrapping during the run.

  \<^item> On a path that has not received before (\<open>rdt = 0\<close>, \<open>recv_time = 0\<close>), after
    three or more arrivals \<open>rdt = delta\<close>.
  \<^item> On a path that has received once, \<open>delta\<close> before the first arrival of the run,
    the first arrival sets \<open>rdt\<close> to the raw difference \<open>delta\<close>, and it stays.
  \<^item> On a path that has an \<open>rdt\<close> already, \<open>r0\<close>, and whose last datagram arrived
    \<open>delta\<close> before the run, each arrival sets
    \<open>rdt := ((now - recv_time) + 7 * rdt) / 8\<close>: after \<open>N\<close> arrivals \<open>rdt\<close> is the
    \<open>N\<close>-fold iterate of \<open>x \<mapsto> (delta + 7 * x) / 8\<close> at \<open>r0\<close>. From above it
    stays at or above \<open>delta\<close> and the distance shrinks by \<open>7/8\<close> per arrival; from
    below it stays at or below \<open>delta\<close> and the distance is at most \<open>(7/8) ^ N\<close> of
    the first one plus \<open>7 (1 - (7/8) ^ N)\<close>. After twenty or more arrivals \<open>rdt\<close> is
    within 1% of \<open>delta\<close> when \<open>delta \<le> r0 \<le> delta + delta / 7\<close>.
\<close>

theorem ewma_convergence:
  assumes "arrivals lib i c0 delta xs (m, w)" and "delta < 2 ^ 48"
  shows "(rdt (paths m ! i) = 0 \<and> recv_time (paths m ! i) = 0 \<and> 3 \<le> length xs \<longrightarrow>
            rdt (paths (fst (recv_run lib xs (m, w))) ! i) = delta)
       \<and> (rdt (paths m ! i) = 0 \<and> recv_time (paths m ! i) \<noteq> 0
            \<and> c0 - recv_time (paths m ! i) = delta \<and> 1 \<le> length xs \<longrightarrow>
            rdt (paths (fst (recv_run lib xs (m, w))) ! i) = delta)
       \<and> (rdt (paths m ! i) \<noteq> 0 \<and> rdt (paths m ! i) < 2 ^ 48
            \<and> c0 - recv_time (paths m ! i) = delta \<longrightarrow>
            rdt (paths (fst (recv_run lib xs (m, w))) ! i)
              = ((\<lambda>x. (delta + 7 * x) div 8) ^^ length xs) (rdt (paths m ! i))
            \<and> (delta \<le> rdt (paths m ! i) \<longrightarrow>
                 delta \<le> rdt (paths (fst (recv_run lib xs (m, w))) ! i)
                 \<and> 8 ^ length xs
                      * (unat (rdt (paths (fst (recv_run lib xs (m, w))) ! i)) - unat delta)
                     \<le> 7 ^ length xs * (unat (rdt (paths m ! i)) - unat delta))
            \<and> (rdt (paths m ! i) \<le> delta \<longrightarrow>
                 rdt (paths (fst (recv_run lib xs (m, w))) ! i) \<le> delta
                 \<and> 8 ^ length xs
                      * (unat delta - unat (rdt (paths (fst (recv_run lib xs (m, w))) ! i)))
                      + 7 * 7 ^ length xs
                     \<le> 7 ^ length xs * (unat delta - unat (rdt (paths m ! i)))
                        + 7 * 8 ^ length xs)
            \<and> (20 \<le> length xs \<and> delta \<le> rdt (paths m ! i)
                 \<and> 7 * (unat (rdt (paths m ! i)) - unat delta) \<le> unat delta \<longrightarrow>
                 100 * \<bar>int (unat (rdt (paths (fst (recv_run lib xs (m, w))) ! i)))
                         - int (unat delta)\<bar> \<le> int (unat delta)))"
proof (intro conjI impI)
  assume "rdt (paths m ! i) = 0 \<and> recv_time (paths m ! i) = 0 \<and> 3 \<le> length xs"
  then show "rdt (paths (fst (recv_run lib xs (m, w))) ! i) = delta"
    using fresh_run [OF assms(2) assms(1)] by simp
next
  assume "rdt (paths m ! i) = 0 \<and> recv_time (paths m ! i) \<noteq> 0
          \<and> c0 - recv_time (paths m ! i) = delta \<and> 1 \<le> length xs"
  then show "rdt (paths (fst (recv_run lib xs (m, w))) ! i) = delta"
    using once_run [OF assms(2) assms(1)] by simp
next
  define r0 where "r0 = rdt (paths m ! i)"
  define r where "r = rdt (paths (fst (recv_run lib xs (m, w))) ! i)"
  define n where "n = length xs"
  assume w: "rdt (paths m ! i) \<noteq> 0 \<and> rdt (paths m ! i) < 2 ^ 48
             \<and> c0 - recv_time (paths m ! i) = delta"
  then have r0: "r0 < 2 ^ 48" by (simp add: r0_def)
  have ex: "r = ((\<lambda>x. (delta + 7 * x) div 8) ^^ n) r0"
    unfolding r_def r0_def n_def
    using warm_run [OF assms(2) assms(1)] w by simp
  then show "rdt (paths (fst (recv_run lib xs (m, w))) ! i)
              = ((\<lambda>x. (delta + 7 * x) div 8) ^^ length xs) (rdt (paths m ! i))"
    by (simp add: r_def r0_def n_def)
  have u: "unat r = ((\<lambda>y. (unat delta + 7 * y) div 8) ^^ n) (unat r0)"
    unfolding ex using ewma_iter_unat [OF assms(2) r0, of n] by simp
  {
    assume "delta \<le> rdt (paths m ! i)"
    then have le: "unat delta \<le> unat r0" by (simp add: r0_def word_le_nat_alt)
    have "unat delta \<le> unat r \<and> 8 ^ n * (unat r - unat delta) \<le> 7 ^ n * (unat r0 - unat delta)"
      unfolding u by (rule iter_above [OF le])
    then show "delta \<le> rdt (paths (fst (recv_run lib xs (m, w))) ! i)"
      and "8 ^ length xs
             * (unat (rdt (paths (fst (recv_run lib xs (m, w))) ! i)) - unat delta)
            \<le> 7 ^ length xs * (unat (rdt (paths m ! i)) - unat delta)"
      by (simp_all add: r_def r0_def n_def word_le_nat_alt)
  }
  {
    assume "rdt (paths m ! i) \<le> delta"
    then have le: "unat r0 \<le> unat delta" by (simp add: r0_def word_le_nat_alt)
    have "unat r \<le> unat delta
          \<and> 8 ^ n * (unat delta - unat r) + 7 * 7 ^ n
              \<le> 7 ^ n * (unat delta - unat r0) + 7 * 8 ^ n"
      unfolding u by (rule iter_below [OF le])
    then show "rdt (paths (fst (recv_run lib xs (m, w))) ! i) \<le> delta"
      and "8 ^ length xs
             * (unat delta - unat (rdt (paths (fst (recv_run lib xs (m, w))) ! i)))
             + 7 * 7 ^ length xs
            \<le> 7 ^ length xs * (unat delta - unat (rdt (paths m ! i))) + 7 * 8 ^ length xs"
      by (simp_all add: r_def r0_def n_def word_le_nat_alt)
  }
  {
    assume h: "20 \<le> length xs \<and> delta \<le> rdt (paths m ! i)
               \<and> 7 * (unat (rdt (paths m ! i)) - unat delta) \<le> unat delta"
    then have le: "unat delta \<le> unat r0" by (simp add: r0_def word_le_nat_alt)
    have c: "7 * (unat r0 - unat delta) \<le> unat delta" using h by (simp add: r0_def)
    have n20: "20 \<le> n" using h by (simp add: n_def)
    have p: "100 * (unat r - unat delta) \<le> unat delta"
      unfolding u by (rule iter_one_percent [OF le c n20])
    have ge: "unat delta \<le> unat r"
      unfolding u using iter_above [OF le, of n] by simp
    obtain k where k: "unat r = unat delta + k"
      using ge by (auto simp: le_iff_add)
    have "100 * k \<le> unat delta" using p by (simp add: k)
    then have "100 * int k \<le> int (unat delta)" by linarith
    then have "100 * \<bar>int (unat r) - int (unat delta)\<bar> \<le> int (unat delta)"
      by (simp add: k)
    then show "100 * \<bar>int (unat (rdt (paths (fst (recv_run lib xs (m, w))) ! i)))
                      - int (unat delta)\<bar> \<le> int (unat delta)"
      by (simp add: r_def)
  }
qed

theorem ewma_convergence_witness:
  "arrivals toy_sodium 0 5000000000 1000 (replicate 20 ping_arrival) (fst engine0, snd engine0)
   \<and> (1000 :: u64) < 2 ^ 48
   \<and> rdt (paths (fst engine0) ! 0) = 0 \<and> recv_time (paths (fst engine0) ! 0) = 0
   \<and> 3 \<le> length (replicate 20 ping_arrival)
   \<and> rdt (paths (fst (recv_run toy_sodium (replicate 20 ping_arrival)
                         (fst engine0, snd engine0))) ! 0) = 1000
   \<and> arrivals toy_sodium 0 5000002142 1000 (replicate 20 ping_arrival)
        (fst (engine_warm 1142), snd (engine_warm 1142))
   \<and> rdt (paths (fst (engine_warm 1142)) ! 0) = 1142
   \<and> 5000002142 - recv_time (paths (fst (engine_warm 1142)) ! 0) = 1000
   \<and> rdt (paths (fst (recv_run toy_sodium (replicate 20 ping_arrival)
                         (fst (engine_warm 1142), snd (engine_warm 1142)))) ! 0) = 1007
   \<and> 100 * \<bar>int (unat (rdt (paths (fst (recv_run toy_sodium (replicate 20 ping_arrival)
                (fst (engine_warm 1142), snd (engine_warm 1142)))) ! 0)))
              - int (unat (1000 :: u64))\<bar> \<le> int (unat (1000 :: u64))
   \<and> arrivals toy_sodium 0 5000001000 1000 [ping_arrival, ping_arrival]
        (fst (recv_run toy_sodium [ping_arrival] engine0),
         snd (recv_run toy_sodium [ping_arrival] engine0))
   \<and> rdt (paths (fst (recv_run toy_sodium [ping_arrival] engine0)) ! 0) = 0
   \<and> recv_time (paths (fst (recv_run toy_sodium [ping_arrival] engine0)) ! 0) = 5000000000
   \<and> rdt (paths (fst (recv_run toy_sodium [ping_arrival, ping_arrival]
                         (fst (recv_run toy_sodium [ping_arrival] engine0),
                          snd (recv_run toy_sodium [ping_arrival] engine0)))) ! 0) = 1000"
proof -
  note a0 = engine0_arrivals and f0 = engine0_fresh
   and a1 = engine_near_arrivals and f1 = engine_near and it = ewma_iterate_near
   and a2 = engine_once_arrivals and f2 = engine_once
  have d: "(1000 :: u64) < 2 ^ 48" by simp
  have n: "3 \<le> length (replicate 20 ping_arrival)" "20 \<le> length (replicate 20 ping_arrival)"
    by simp_all
  have w1: "rdt (paths (fst (engine_warm 1142)) ! 0) \<noteq> 0"
      "rdt (paths (fst (engine_warm 1142)) ! 0) < 2 ^ 48"
      "(1000 :: u64) \<le> rdt (paths (fst (engine_warm 1142)) ! 0)"
      "7 * (unat (rdt (paths (fst (engine_warm 1142)) ! 0)) - unat (1000 :: u64))
         \<le> unat (1000 :: u64)"
    unfolding f1(1) by simp_all
  note fresh = ewma_convergence [OF a0 d, THEN conjunct1, rule_format]
  note warm = ewma_convergence [OF a1 d, THEN conjunct2, THEN conjunct2, rule_format]
  have r0: "rdt (paths (fst (recv_run toy_sodium (replicate 20 ping_arrival)
                         (fst engine0, snd engine0))) ! 0) = 1000"
    using fresh f0 n(1) by blast
  have ww: "rdt (paths (fst (engine_warm 1142)) ! 0) \<noteq> 0
            \<and> rdt (paths (fst (engine_warm 1142)) ! 0) < 2 ^ 48
            \<and> 5000002142 - recv_time (paths (fst (engine_warm 1142)) ! 0) = 1000"
    using w1 f1 by blast
  have r1: "rdt (paths (fst (recv_run toy_sodium (replicate 20 ping_arrival)
                         (fst (engine_warm 1142), snd (engine_warm 1142)))) ! 0) = 1007"
    using warm [OF ww, THEN conjunct1] unfolding f1(1) length_replicate it .
  have p1: "100 * \<bar>int (unat (rdt (paths (fst (recv_run toy_sodium (replicate 20 ping_arrival)
                (fst (engine_warm 1142), snd (engine_warm 1142)))) ! 0)))
              - int (unat (1000 :: u64))\<bar> \<le> int (unat (1000 :: u64))"
    using warm [OF ww, THEN conjunct2, THEN conjunct2, THEN conjunct2] n(2) w1(3,4) by blast
  have o2: "rdt (paths (fst (recv_run toy_sodium [ping_arrival] engine0)) ! 0) = 0
            \<and> recv_time (paths (fst (recv_run toy_sodium [ping_arrival] engine0)) ! 0) \<noteq> 0
            \<and> 5000001000
                 - recv_time (paths (fst (recv_run toy_sodium [ping_arrival] engine0)) ! 0)
               = 1000
            \<and> 1 \<le> length [ping_arrival, ping_arrival]"
    unfolding f2 by simp
  have r2: "rdt (paths (fst (recv_run toy_sodium [ping_arrival, ping_arrival]
                         (fst (recv_run toy_sodium [ping_arrival] engine0),
                          snd (recv_run toy_sodium [ping_arrival] engine0)))) ! 0) = 1000"
    using ewma_convergence [OF a2 d, THEN conjunct2, THEN conjunct1, rule_format, OF o2] .
  show ?thesis
    using a0 d f0 n(1) r0 a1 f1 r1 p1 a2 f2 r2 by blast
qed

end
